theory Spec2Isabelle
  imports Complex_Main "HOL-Library.Word" "HOL-Library.Signed_Division"
begin

unbundle bit_operations_syntax

section \<open>Integrated gang scheduler: data model\<close>

text \<open>
  The development follows \<^verbatim>\<open>xen/common/sched_gang.c\<close>,
  \<^verbatim>\<open>xen/include/public/gang_sched_policies.h\<close> and
  \<^verbatim>\<open>tools/gangi_ctl/gs_sched_test.cc\<close>.  C identifiers that start with
  underscores lose them (\<^verbatim>\<open>__update_cohorts\<close> is \<open>update_cohorts\<close>), since an
  Isabelle name starts with a letter; a name that is already taken gets a suffix.

  Machine integers are words: \<^verbatim>\<open>s_time_t\<close> is a 64-bit word read as two's complement
  (\<open>sint\<close>, \<open><s\<close>, \<open>\<le>s\<close>), \<^verbatim>\<open>uint64_t\<close> a 64-bit word read unsigned; \<open>+\<close>, \<open>-\<close> and \<open>*\<close>
  wrap around.  A \<^verbatim>\<open>cpumask_t\<close> is a bitmap of \<^verbatim>\<open>NR_CPUS\<close> bits: a word whose length
  \<open>LENGTH('n)\<close> stands for \<^verbatim>\<open>NR_CPUS\<close>, which the sources do not fix.
\<close>

type_synonym s_time_t = "64 word"
type_synonym uint64_t = "64 word"
type_synonym domid_t = "16 word"

text \<open>Every \<^verbatim>\<open>BUG()\<close>, \<^verbatim>\<open>BUG_ON\<close>, \<^verbatim>\<open>ASSERT\<close>, \<^verbatim>\<open>__PANIC\<close> and hardware trap is a value.\<close>

datatype fault = BUG | ASSERT_FAILED | PANIC | DIVIDE_ERROR | OUT_OF_BOUNDS

subsection \<open>Time constants\<close>

text \<open>
  Modelled from the spec: the macros \<^verbatim>\<open>STIME_MAX\<close>, \<^verbatim>\<open>MICROSECS\<close> and \<^verbatim>\<open>MILLISECS\<close> of
  \<^verbatim>\<open>xen/time.h\<close> are not among the sources.  Times are nanoseconds, 1 ms = 1 000 000 ns,
  and \<^verbatim>\<open>INFINITY\<close> is the largest \<^verbatim>\<open>s_time_t\<close>.
\<close>

definition INFINITY :: s_time_t where
  "INFINITY = 0x7FFFFFFFFFFFFFFF"

definition us_2_ns :: "s_time_t \<Rightarrow> s_time_t" where
  "us_2_ns us = us * 1000"

definition ms_2_ns :: "s_time_t \<Rightarrow> s_time_t" where
  "ms_2_ns ms = ms * 1000000"

definition MARGIN :: s_time_t where
  "MARGIN = us_2_ns 10"

text \<open>
  \<^verbatim>\<open>GANG_FINEST_TIME_GRAIN_IN_US\<close> is the boot parameter \<^verbatim>\<open>sched_ratelimit_us\<close>, an \<^verbatim>\<open>int\<close>
  defined outside the sources: it is a parameter \<open>us\<close> of every function that reads it,
  sign-extended where C promotes it to \<^verbatim>\<open>s_time_t\<close>.
\<close>

definition GANG_FINEST_TIME_GRAIN_IN_US :: "32 word \<Rightarrow> s_time_t" where
  "GANG_FINEST_TIME_GRAIN_IN_US us = scast us"

definition GANG_FINEST_TIME_GRAIN :: "32 word \<Rightarrow> s_time_t" where
  "GANG_FINEST_TIME_GRAIN us = us_2_ns (GANG_FINEST_TIME_GRAIN_IN_US us)"

text \<open>C's \<^verbatim>\<open>/\<close> on \<^verbatim>\<open>s_time_t\<close> truncates towards zero; a zero divisor traps.\<close>

definition s_time_div :: "s_time_t \<Rightarrow> s_time_t \<Rightarrow> fault + s_time_t" where
  "s_time_div a b =
     (if b = 0 then Inl DIVIDE_ERROR else Inr (word_of_int (sint a sdiv sint b)))"

definition MIN_time :: "s_time_t \<Rightarrow> s_time_t \<Rightarrow> s_time_t" where
  "MIN_time a b = (if a <s b then a else b)"

subsection \<open>Muxing policies (\<^verbatim>\<open>gang_sched_policies.h\<close>)\<close>

record no_muxing_params_t =
  no_from :: uint64_t

record tt_muxing_params_t =
  tt_from :: uint64_t
  tt_period :: uint64_t
  tt_active_time :: uint64_t
  tt_space_filling :: "8 word"

record et_muxing_params_t =
  et_from :: uint64_t
  et_period :: uint64_t
  et_active_time :: uint64_t
  et_space_filling :: "8 word"

record be_muxing_params_t =
  be_from :: uint64_t
  be_weight :: "16 word"
  be_space_filling :: "8 word"

text \<open>
  \<^verbatim>\<open>gang_sched_policy_t\<close> is a type tag with a union of parameter records: a datatype
  with one constructor per tag.  \<open>GANG_SCHED_POLICY_OTHER\<close> stands for every tag value
  outside the enumeration.
\<close>

datatype gang_sched_policy_t =
    GANG_SCHED_POLICY_NOT_SET
  | GANG_NO_MUXING no_muxing_params_t
  | GANG_TIME_TRIG_MUXING tt_muxing_params_t
  | GANG_EVENT_TRIG_MUXING et_muxing_params_t
  | GANG_BEST_EFFORT_MUXING be_muxing_params_t
  | GANG_SCHED_POLICY_OTHER

text \<open>The numeric tag, as the enumeration assigns it (5 is the first invalid value).\<close>

fun policy_type :: "gang_sched_policy_t \<Rightarrow> nat" where
  "policy_type GANG_SCHED_POLICY_NOT_SET = 0"
| "policy_type (GANG_NO_MUXING _) = 1"
| "policy_type (GANG_TIME_TRIG_MUXING _) = 2"
| "policy_type (GANG_EVENT_TRIG_MUXING _) = 3"
| "policy_type (GANG_BEST_EFFORT_MUXING _) = 4"
| "policy_type GANG_SCHED_POLICY_OTHER = 5"

definition NUM_OF_GANG_SCHED_POLICIES :: nat where
  "NUM_OF_GANG_SCHED_POLICIES = 5"

definition VALIDATE_GANG_SCHED_POLICY_TYPE :: "gang_sched_policy_t \<Rightarrow> bool" where
  "VALIDATE_GANG_SCHED_POLICY_TYPE p =
     (0 < policy_type p \<and> policy_type p < NUM_OF_GANG_SCHED_POLICIES)"

section \<open>Policy validation\<close>

subsection \<open>In the hypervisor (\<^verbatim>\<open>sched_gang.c\<close>)\<close>

text \<open>
  \<^verbatim>\<open>__validate_tt_muxing_params\<close>: the \<^verbatim>\<open>uint64_t\<close> fields are cast to \<^verbatim>\<open>s_time_t\<close> and
  compared as signed values; each failed check returns \<^verbatim>\<open>FALSE\<close>.
\<close>

definition validate_tt_muxing_params :: "32 word \<Rightarrow> tt_muxing_params_t \<Rightarrow> bool" where
  "validate_tt_muxing_params us params =
     (let period = tt_period params;
          active_time = tt_active_time params
      in if period <s GANG_FINEST_TIME_GRAIN_IN_US us then False
         else if INFINITY \<le>s period then False
         else if active_time <s GANG_FINEST_TIME_GRAIN_IN_US us then False
         else if INFINITY \<le>s active_time then False
         else if period <s active_time then False
         else True)"

definition validate_et_muxing_params :: "32 word \<Rightarrow> et_muxing_params_t \<Rightarrow> bool" where
  "validate_et_muxing_params us params =
     (let period = et_period params;
          active_time = et_active_time params
      in if period <s GANG_FINEST_TIME_GRAIN_IN_US us then False
         else if INFINITY \<le>s period then False
         else if active_time <s GANG_FINEST_TIME_GRAIN_IN_US us then False
         else if INFINITY \<le>s active_time then False
         else if period <s active_time then False
         else True)"

text \<open>\<^verbatim>\<open>__validate_be_muxing_params\<close>: "So far, nothing to validate."\<close>

definition validate_be_muxing_params :: "be_muxing_params_t \<Rightarrow> bool" where
  "validate_be_muxing_params params = True"

text \<open>\<^verbatim>\<open>__validate_gang_sched_policy\<close>, for a non-null policy pointer.\<close>

fun validate_gang_sched_policy :: "32 word \<Rightarrow> gang_sched_policy_t \<Rightarrow> bool" where
  "validate_gang_sched_policy us (GANG_NO_MUXING p) = True"
| "validate_gang_sched_policy us (GANG_TIME_TRIG_MUXING p) = validate_tt_muxing_params us p"
| "validate_gang_sched_policy us (GANG_EVENT_TRIG_MUXING p) = validate_et_muxing_params us p"
| "validate_gang_sched_policy us (GANG_BEST_EFFORT_MUXING p) = validate_be_muxing_params p"
| "validate_gang_sched_policy us _ = False"

subsection \<open>In the control tool (\<^verbatim>\<open>gs_sched_test.cc\<close>)\<close>

text \<open>The tool's \<^verbatim>\<open>INFINITY\<close> is \<^verbatim>\<open>UINT64_MAX\<close>; its comparisons are unsigned.\<close>

definition TOOL_INFINITY :: uint64_t where
  "TOOL_INFINITY = 0xFFFFFFFFFFFFFFFF"

fun validate_muxing_policy :: "gang_sched_policy_t \<Rightarrow> bool" where
  "validate_muxing_policy (GANG_TIME_TRIG_MUXING p) =
     (if tt_from p = TOOL_INFINITY then False
      else if tt_period p \<le> tt_active_time p then False
      else True)"
| "validate_muxing_policy (GANG_EVENT_TRIG_MUXING p) =
     (if et_from p = TOOL_INFINITY then False
      else if et_period p \<le> et_active_time p then False
      else True)"
| "validate_muxing_policy (GANG_BEST_EFFORT_MUXING p) =
     (if be_from p = TOOL_INFINITY then False
      else if be_weight p = 0 then False
      else True)"
| "validate_muxing_policy (GANG_NO_MUXING p) =
     (if no_from p = TOOL_INFINITY then False else True)"
| "validate_muxing_policy _ = False"


section \<open>The local scheduler (\<^verbatim>\<open>sched_gang.c\<close>)\<close>

subsection \<open>Domains, VCPUs, tickets\<close>

text \<open>
  \<^verbatim>\<open>gang_dom_info_t\<close>.  The field \<open>domain_id\<close> is \<^verbatim>\<open>di->domain->domain_id\<close>, the only
  part of \<^verbatim>\<open>struct domain\<close> that the scheduling code reads through a domain info.
\<close>

record (overloaded) ('n::len) gang_dom_info_t =
  domain_id :: domid_t
  cpumask :: "'n word"
  tm_muxing_spec :: gang_sched_policy_t
  cohort :: int
  muxgroup_mask :: "'n word"

definition get_domid_from_dom_info :: "('n::len) gang_dom_info_t \<Rightarrow> domid_t" where
  "get_domid_from_dom_info di = domain_id di"

type_synonym ticket_ptr = nat

text \<open>
  Of Xen's \<^verbatim>\<open>struct vcpu\<close> the scheduler reads the VCPU id, whether the VCPU is an idle
  VCPU, and \<^verbatim>\<open>sched_priv\<close> (the VCPU's ticket).
\<close>

record vcpu =
  vcpu_id :: int
  is_idle_vcpu :: bool
  sched_priv :: "ticket_ptr option"

text \<open>
  \<^verbatim>\<open>sched_ticket_t\<close>.  Pointers that may be \<^verbatim>\<open>NULL\<close> are options.  The domain info a
  ticket points to is not written during a scheduling decision and is held by value; the
  red-black tree links are the queues of \<open>sched_info_t\<close> below.
\<close>

record (overloaded) ('n::len) sched_ticket_t =
  vcpu :: "vcpu option"
  dom_info :: "'n gang_dom_info_t"
  earliest_start_time :: s_time_t
  deadline :: s_time_t
  remaining_time :: s_time_t
  activated_at :: s_time_t
  flags :: "32 word"
  on_my_behalf :: "ticket_ptr option"

definition GSBIT_SINGLE_VCPU_YIELD :: nat where "GSBIT_SINGLE_VCPU_YIELD = 1"
definition GSBIT_IS_SLEEPING :: nat where "GSBIT_IS_SLEEPING = 2"
definition GSBIT_WAS_WAITING_FOR_EVENT :: nat where "GSBIT_WAS_WAITING_FOR_EVENT = 3"

text \<open>
  \<^verbatim>\<open>sched_info_t\<close>.  Tickets are shared by pointer (the same ticket is stored in
  \<^verbatim>\<open>cur_ticket_per_cpu[c]\<close> for every CPU of its domain), so the queues and the table hold
  ticket addresses and \<open>ticket_mem\<close> is the memory they point into.  A queue is the
  in-order sequence of its tree.  \<^verbatim>\<open>cur_ticket_per_cpu\<close> is an array of \<^verbatim>\<open>NR_CPUS\<close> entries,
  read and written at indices below \<open>LENGTH('n)\<close> only.  The hash table of waiting tickets
  is a map from domain ids, behind a pointer that is \<^verbatim>\<open>NULL\<close> until the table is created.
\<close>

record (overloaded) ('n::len) sched_info_t =
  ticket_mem :: "ticket_ptr \<Rightarrow> 'n sched_ticket_t"
  edf_runnable_Q :: "ticket_ptr list"
  activation_Q :: "ticket_ptr list"
  tickets_waiting_4_event :: "(domid_t \<rightharpoonup> ticket_ptr) option"
  cur_ticket_per_cpu :: "nat \<Rightarrow> ticket_ptr option"

record (overloaded) ('n::len) gang_pcpu_info_t =
  local_sched :: "'n sched_info_t option"

definition NR_CPUS :: "('n::len) sched_info_t \<Rightarrow> nat" where
  "NR_CPUS s = LENGTH('n)"

subsection \<open>Allocating and freeing per-CPU data\<close>

text \<open>
  \<^verbatim>\<open>__init_sched_info\<close>: both queues are emptied, the waiting set is created
  (\<^verbatim>\<open>BUG_ON\<close> if there is one already; \<^verbatim>\<open>create_hashtable\<close> returns \<^verbatim>\<open>NULL\<close> when it cannot
  allocate, here \<open>ht_ok = False\<close>), and the table of current tickets is zeroed.
\<close>

definition create_waiting_4_event_set ::
    "bool \<Rightarrow> ('n::len) sched_info_t \<Rightarrow> fault + 'n sched_info_t" where
  "create_waiting_4_event_set ht_ok s =
     (case tickets_waiting_4_event s of
        Some _ \<Rightarrow> Inl BUG
      | None \<Rightarrow> Inr (s\<lparr>tickets_waiting_4_event := (if ht_ok then Some Map.empty else None)\<rparr>))"

definition init_sched_info ::
    "bool \<Rightarrow> ('n::len) sched_info_t option \<Rightarrow> fault + 'n sched_info_t" where
  "init_sched_info ht_ok sp =
     (case sp of
        None \<Rightarrow> Inl BUG
      | Some s \<Rightarrow>
          (case create_waiting_4_event_set ht_ok
                  (s\<lparr>edf_runnable_Q := [], activation_Q := []\<rparr>) of
             Inl e \<Rightarrow> Inl e
           | Inr s' \<Rightarrow> Inr (s'\<lparr>cur_ticket_per_cpu := (\<lambda>_. None)\<rparr>)))"

text \<open>
  \<^verbatim>\<open>__deinit_sched_info\<close>.  Freeing a ticket (\<^verbatim>\<open>xfree\<close>) leaves no trace in the model;
  what remains of the three cleaning steps is that the queues and the waiting set end up
  empty.  \<^verbatim>\<open>__clean_waiting_4_event_set\<close> and \<^verbatim>\<open>__destroy_waiting_4_event_set\<close> dereference
  the table pointer; the latter has \<^verbatim>\<open>BUG_ON(s->tickets_waiting_4_event == NULL)\<close>.
\<close>

definition clean_waiting_4_event_set ::
    "('n::len) sched_info_t \<Rightarrow> fault + 'n sched_info_t" where
  "clean_waiting_4_event_set s =
     (case tickets_waiting_4_event s of
        None \<Rightarrow> Inl OUT_OF_BOUNDS
      | Some _ \<Rightarrow> Inr (s\<lparr>tickets_waiting_4_event := Some Map.empty\<rparr>))"

definition destroy_waiting_4_event_set ::
    "('n::len) sched_info_t \<Rightarrow> fault + 'n sched_info_t" where
  "destroy_waiting_4_event_set s =
     (case tickets_waiting_4_event s of
        None \<Rightarrow> Inl BUG
      | Some h \<Rightarrow> Inr (s\<lparr>tickets_waiting_4_event := None\<rparr>))"

definition deinit_sched_info ::
    "('n::len) sched_info_t option \<Rightarrow> bool \<Rightarrow> fault + 'n sched_info_t" where
  "deinit_sched_info sp destroy_waiting_set =
     (case sp of
        None \<Rightarrow> Inl BUG
      | Some s \<Rightarrow>
          (case clean_waiting_4_event_set (s\<lparr>edf_runnable_Q := [], activation_Q := []\<rparr>) of
             Inl e \<Rightarrow> Inl e
           | Inr s1 \<Rightarrow>
               (case (if destroy_waiting_set then destroy_waiting_4_event_set s1 else Inr s1) of
                  Inl e \<Rightarrow> Inl e
                | Inr s2 \<Rightarrow> Inr (s2\<lparr>cur_ticket_per_cpu := (\<lambda>_. None)\<rparr>))))"

text \<open>
  \<^verbatim>\<open>gang_alloc_pdata\<close>.  The two \<^verbatim>\<open>xzalloc\<close> calls succeed or not (\<open>pci_ok\<close>, \<open>sched_ok\<close>);
  a zeroed \<^verbatim>\<open>sched_info_t\<close> has empty queues, no waiting set and no current tickets, and
  \<open>mem\<close> is the ticket memory at that moment.  \<open>cv\<close> is \<^verbatim>\<open>curr_on_cpu(cpu)\<close>.
\<close>

definition xzalloc_sched_info ::
    "(ticket_ptr \<Rightarrow> ('n::len) sched_ticket_t) \<Rightarrow> 'n sched_info_t" where
  "xzalloc_sched_info mem =
     \<lparr>ticket_mem = mem, edf_runnable_Q = [], activation_Q = [],
      tickets_waiting_4_event = None, cur_ticket_per_cpu = (\<lambda>_. None)\<rparr>"

definition gang_alloc_pdata ::
    "(ticket_ptr \<Rightarrow> ('n::len) sched_ticket_t) \<Rightarrow> bool \<Rightarrow> bool \<Rightarrow> bool \<Rightarrow> vcpu
       \<Rightarrow> fault + 'n gang_pcpu_info_t option" where
  "gang_alloc_pdata mem pci_ok sched_ok ht_ok cv =
     (if \<not> pci_ok \<or> \<not> sched_ok then Inr None
      else case init_sched_info ht_ok (Some (xzalloc_sched_info mem)) of
             Inl e \<Rightarrow> Inl e
           | Inr ls \<Rightarrow>
               (case tickets_waiting_4_event ls of
                  None \<Rightarrow> Inl BUG
                | Some _ \<Rightarrow>
                    if \<not> is_idle_vcpu cv then Inl BUG
                    else Inr (Some \<lparr>local_sched = Some ls\<rparr>)))"

text \<open>
  \<^verbatim>\<open>gang_free_pdata\<close>.  \<^verbatim>\<open>ASSERT\<close> is compiled in when \<^verbatim>\<open>NDEBUG\<close> is not defined
  (\<open>debug = True\<close>) and is empty otherwise.
\<close>

definition gang_free_pdata ::
    "bool \<Rightarrow> ('n::len) gang_pcpu_info_t option \<Rightarrow> fault + unit" where
  "gang_free_pdata debug spc =
     (case spc of
        None \<Rightarrow> Inr ()
      | Some pci \<Rightarrow>
          (case (if debug then local_sched pci else None) of
             Some _ \<Rightarrow> Inl ASSERT_FAILED
           | None \<Rightarrow>
               (case deinit_sched_info (local_sched pci) True of
                  Inl e \<Rightarrow> Inl e
                | Inr _ \<Rightarrow> Inr ())))"

subsection \<open>CPU masks\<close>

text \<open>
  Modelled from the spec: the operations of \<^verbatim>\<open>xen/cpumask.h\<close> are not among the sources.
  A CPU mask is a fixed-width bit set with test, union, intersection test, subset test and
  equality.
\<close>

definition cpumask_test_cpu :: "nat \<Rightarrow> ('n::len) word \<Rightarrow> bool" where
  "cpumask_test_cpu cpu m = bit m cpu"

definition cpumask_or :: "('n::len) word \<Rightarrow> 'n word \<Rightarrow> 'n word" where
  "cpumask_or a b = a OR b"

definition cpumask_intersects :: "('n::len) word \<Rightarrow> 'n word \<Rightarrow> bool" where
  "cpumask_intersects a b = (a AND b \<noteq> 0)"

definition cpumask_subset :: "('n::len) word \<Rightarrow> 'n word \<Rightarrow> bool" where
  "cpumask_subset a b = (a AND NOT b = 0)"

definition cpumask_equal :: "('n::len) word \<Rightarrow> 'n word \<Rightarrow> bool" where
  "cpumask_equal a b = (a = b)"

subsection \<open>Global variables the decision reads\<close>

text \<open>
  The boot parameters and the topology arrays of the file, which a scheduling decision
  only reads.  The arrays have \<^verbatim>\<open>NR_CPUS\<close> entries; \<open>idle_vcpu\<close> is Xen's array of idle
  VCPUs.
\<close>

record (overloaded) ('n::len) gang_globals =
  sched_ratelimit_us :: "32 word"
  period_4_be_doms :: s_time_t
  quantum_4_be_doms :: s_time_t
  cohorts :: "'n word list"
  be_doms_in_cohort :: "32 word list"
  num_of_cohorts :: nat
  num_of_muxgroups :: nat
  idle_vcpu :: "nat \<Rightarrow> vcpu"

subsection \<open>Priority queues\<close>

definition cmp_tckt_deadlines ::
    "('n::len) sched_ticket_t \<Rightarrow> 'n sched_ticket_t \<Rightarrow> int" where
  "cmp_tckt_deadlines t1 t2 =
     (if deadline t1 <s deadline t2 then - 1
      else if deadline t2 <s deadline t1 then 1
      else if get_domid_from_dom_info (dom_info t1) < get_domid_from_dom_info (dom_info t2)
        then - 1
      else if get_domid_from_dom_info (dom_info t2) < get_domid_from_dom_info (dom_info t1)
        then 1
      else 0)"

definition cmp_tckt_rel_times ::
    "('n::len) sched_ticket_t \<Rightarrow> 'n sched_ticket_t \<Rightarrow> int" where
  "cmp_tckt_rel_times t1 t2 =
     (if earliest_start_time t1 <s earliest_start_time t2 then - 1
      else if earliest_start_time t2 <s earliest_start_time t1 then 1
      else if get_domid_from_dom_info (dom_info t1) < get_domid_from_dom_info (dom_info t2)
        then - 1
      else if get_domid_from_dom_info (dom_info t2) < get_domid_from_dom_info (dom_info t1)
        then 1
      else 0)"

text \<open>
  Modelled from the spec: the red-black tree macros of \<^verbatim>\<open>extras/tree.h\<close> (\<^verbatim>\<open>RB_INSERT\<close>,
  \<^verbatim>\<open>RB_REMOVE\<close>, \<^verbatim>\<open>RB_MIN\<close>, \<^verbatim>\<open>RB_EMPTY\<close>, \<^verbatim>\<open>RB_FOREACH\<close>) are not among the sources.  A
  queue is an ordered container with ordered insertion, removal of a given ticket (which
  is returned intact), and a peek at the minimum; the model keeps the in-order sequence
  of ticket addresses.  The comparison reads the tickets' key fields from memory, which
  nothing writes while the ticket is in the queue.
\<close>

fun RB_INSERT ::
    "('t \<Rightarrow> 't \<Rightarrow> int) \<Rightarrow> (ticket_ptr \<Rightarrow> 't) \<Rightarrow> ticket_ptr \<Rightarrow> ticket_ptr list
       \<Rightarrow> ticket_ptr list" where
  "RB_INSERT cmp mem elm [] = [elm]"
| "RB_INSERT cmp mem elm (x # xs) =
     (if cmp (mem elm) (mem x) < 0 then elm # x # xs else x # RB_INSERT cmp mem elm xs)"

definition RB_REMOVE :: "ticket_ptr \<Rightarrow> ticket_ptr list \<Rightarrow> ticket_ptr list" where
  "RB_REMOVE elm q = remove1 elm q"

definition RB_MIN :: "ticket_ptr list \<Rightarrow> ticket_ptr option" where
  "RB_MIN q = (case q of [] \<Rightarrow> None | x # _ \<Rightarrow> Some x)"

definition RB_EMPTY :: "ticket_ptr list \<Rightarrow> bool" where
  "RB_EMPTY q = (q = [])"

definition is_runnable_Q_empty :: "('n::len) sched_info_t \<Rightarrow> bool" where
  "is_runnable_Q_empty s = RB_EMPTY (edf_runnable_Q s)"

text \<open>
  The insert functions have \<^verbatim>\<open>BUG_ON(t == NULL)\<close>; their callers have dereferenced the
  ticket before, so the model passes an address.
\<close>

definition insert_into_runnable_Q ::
    "('n::len) sched_info_t \<Rightarrow> ticket_ptr \<Rightarrow> 'n sched_info_t" where
  "insert_into_runnable_Q s t =
     s\<lparr>edf_runnable_Q := RB_INSERT cmp_tckt_deadlines (ticket_mem s) t (edf_runnable_Q s)\<rparr>"

definition remove_from_runnable_Q ::
    "('n::len) sched_info_t \<Rightarrow> ticket_ptr option
       \<Rightarrow> fault + ('n sched_info_t \<times> ticket_ptr)" where
  "remove_from_runnable_Q s tp =
     (case tp of
        None \<Rightarrow> Inl BUG
      | Some t \<Rightarrow>
          if RB_EMPTY (edf_runnable_Q s) then Inl BUG
          else Inr (s\<lparr>edf_runnable_Q := RB_REMOVE t (edf_runnable_Q s)\<rparr>, t))"

definition head_of_runnable_Q :: "('n::len) sched_info_t \<Rightarrow> ticket_ptr option" where
  "head_of_runnable_Q s = RB_MIN (edf_runnable_Q s)"

definition search_in_runnable_Q ::
    "('n::len) sched_info_t \<Rightarrow> domid_t \<Rightarrow> ticket_ptr option" where
  "search_in_runnable_Q s domid =
     find (\<lambda>t. get_domid_from_dom_info (dom_info (ticket_mem s t)) = domid)
       (edf_runnable_Q s)"

definition is_activation_Q_empty :: "('n::len) sched_info_t \<Rightarrow> bool" where
  "is_activation_Q_empty s = RB_EMPTY (activation_Q s)"

definition insert_into_activation_Q ::
    "('n::len) sched_info_t \<Rightarrow> ticket_ptr \<Rightarrow> 'n sched_info_t" where
  "insert_into_activation_Q s t =
     s\<lparr>activation_Q := RB_INSERT cmp_tckt_rel_times (ticket_mem s) t (activation_Q s)\<rparr>"

definition remove_from_activation_Q ::
    "('n::len) sched_info_t \<Rightarrow> ticket_ptr option
       \<Rightarrow> fault + ('n sched_info_t \<times> ticket_ptr)" where
  "remove_from_activation_Q s tp =
     (case tp of
        None \<Rightarrow> Inl BUG
      | Some t \<Rightarrow>
          if RB_EMPTY (activation_Q s) then Inl BUG
          else Inr (s\<lparr>activation_Q := RB_REMOVE t (activation_Q s)\<rparr>, t))"

definition head_of_activation_Q :: "('n::len) sched_info_t \<Rightarrow> ticket_ptr option" where
  "head_of_activation_Q s = RB_MIN (activation_Q s)"

subsection \<open>Updating the times of a ticket\<close>

definition NORMAL_SCHEDULING :: int where "NORMAL_SCHEDULING = 0"
definition PAUSED_DOMAIN :: int where "PAUSED_DOMAIN = 1"
definition UNPAUSED_DOMAIN :: int where "UNPAUSED_DOMAIN = 2"
definition GLOBAL_ADJUST :: int where "GLOBAL_ADJUST = 3"
definition NUM_OF_REASONS_4_UPDATING_TIME_IN_TICKET :: int where
  "NUM_OF_REASONS_4_UPDATING_TIME_IN_TICKET = 4"

definition MIN_NEGATIVE_DIFF :: s_time_t where
  "MIN_NEGATIVE_DIFF = - 10000"

text \<open>
  The re-arming of a ticket whose remaining time fell below \<^verbatim>\<open>MARGIN\<close>, one branch per
  policy as in the \<^verbatim>\<open>if\<close> chain of \<^verbatim>\<open>__update_times_in_ticket\<close>.  \<open>t\<close> is the ticket after
  \<^verbatim>\<open>remaining_time\<close> has been charged.  The division by the time grain traps when the grain
  is zero, and \<^verbatim>\<open>be_doms_in_cohort[cohort]\<close> is read only for an index inside the array.
  The last branch is the \<^verbatim>\<open>ASSERT(FALSE)\<close> of an invalid policy.
\<close>

definition floor_to_grain :: "32 word \<Rightarrow> s_time_t \<Rightarrow> fault + s_time_t" where
  "floor_to_grain us now =
     (case s_time_div now (GANG_FINEST_TIME_GRAIN us) of
        Inl e \<Rightarrow> Inl e
      | Inr q \<Rightarrow> Inr (q * GANG_FINEST_TIME_GRAIN us))"

fun rearm_ticket ::
    "('n::len) gang_globals \<Rightarrow> s_time_t \<Rightarrow> gang_sched_policy_t \<Rightarrow> 'n sched_ticket_t
       \<Rightarrow> fault + 'n sched_ticket_t" where
  "rearm_ticket g now (GANG_TIME_TRIG_MUXING p) t =
     (if remaining_time t <s MARGIN
      then Inr (t\<lparr>earliest_start_time := earliest_start_time t + tt_period p,
                  deadline := deadline t + tt_period p,
                  remaining_time := tt_active_time p\<rparr>)
      else Inr t)"
| "rearm_ticket g now (GANG_EVENT_TRIG_MUXING p) t =
     (if remaining_time t <s MARGIN
      then (case floor_to_grain (sched_ratelimit_us g) now of
              Inl e \<Rightarrow> Inl e
            | Inr est \<Rightarrow>
                Inr (t\<lparr>earliest_start_time := est,
                       deadline := deadline t + et_period p,
                       remaining_time := et_active_time p\<rparr>))
      else Inr t)"
| "rearm_ticket g now (GANG_BEST_EFFORT_MUXING p) t =
     (if remaining_time t <s MARGIN
      then (case floor_to_grain (sched_ratelimit_us g) now of
              Inl e \<Rightarrow> Inl e
            | Inr est \<Rightarrow>
                if cohort (dom_info t) < 0
                   \<or> int (length (be_doms_in_cohort g)) \<le> cohort (dom_info t)
                then Inl OUT_OF_BOUNDS
                else Inr (t\<lparr>earliest_start_time := est,
                            deadline := deadline t
                              + scast (be_doms_in_cohort g ! nat (cohort (dom_info t)))
                                * period_4_be_doms g,
                            remaining_time := quantum_4_be_doms g\<rparr>))
      else Inr t)"
| "rearm_ticket g now _ t = Inl ASSERT_FAILED"

text \<open>
  \<^verbatim>\<open>__update_times_in_ticket\<close>.  \<open>tkt\<close> is the address of the ticket; the updated ticket is
  written back to memory before it is inserted into the activation queue.
\<close>

definition update_times_in_ticket ::
    "('n::len) gang_globals \<Rightarrow> 'n sched_info_t \<Rightarrow> ticket_ptr \<Rightarrow> s_time_t \<Rightarrow> int
       \<Rightarrow> fault + 'n sched_info_t" where
  "update_times_in_ticket g s tkt now reason =
     (let t = ticket_mem s tkt;
          di = dom_info t;
          dom_id = get_domid_from_dom_info di
      in if search_in_runnable_Q s dom_id \<noteq> None then Inl BUG
         else if (case vcpu t of None \<Rightarrow> False | Some v \<Rightarrow> is_idle_vcpu v) then Inl BUG
         else if \<not> VALIDATE_GANG_SCHED_POLICY_TYPE (tm_muxing_spec di) then Inl BUG
         else if reason < NORMAL_SCHEDULING then Inl BUG
         else if NUM_OF_REASONS_4_UPDATING_TIME_IN_TICKET \<le> reason then Inl BUG
         else if reason = NORMAL_SCHEDULING then
           (case tm_muxing_spec di of
              GANG_NO_MUXING _ \<Rightarrow> Inr (insert_into_activation_Q s tkt)
            | pol \<Rightarrow>
                (let diff = now - activated_at t
                 in if diff <s MIN_NEGATIVE_DIFF then Inl BUG
                    else
                      (let diff' = (if diff <s 0 then 0 else diff);
                           t1 = t\<lparr>remaining_time := remaining_time t - diff'\<rparr>
                       in case rearm_ticket g now pol t1 of
                            Inl e \<Rightarrow> Inl e
                          | Inr t2 \<Rightarrow>
                              Inr (insert_into_activation_Q
                                     (s\<lparr>ticket_mem := (ticket_mem s)(tkt := t2)\<rparr>) tkt))))
         else if reason = PAUSED_DOMAIN then Inl BUG
         else if reason = UNPAUSED_DOMAIN then Inl BUG
         else if reason = GLOBAL_ADJUST then Inl PANIC
         else Inl PANIC)"

subsection \<open>Bookkeeping at the start of a decision\<close>

text \<open>
  \<^verbatim>\<open>__update_current_tickets\<close>: the loop over \<^verbatim>\<open>cpu = 0 .. NR_CPUS - 1\<close> with the mask of
  CPUs already checked, then the \<^verbatim>\<open>memset\<close> of the table of current tickets.
\<close>

fun update_current_tickets_loop ::
    "('n::len) gang_globals \<Rightarrow> s_time_t \<Rightarrow> nat list \<Rightarrow> 'n word \<Rightarrow> 'n sched_info_t
       \<Rightarrow> fault + 'n sched_info_t" where
  "update_current_tickets_loop g now [] checked_cpus s = Inr s"
| "update_current_tickets_loop g now (cpu # cpus) checked_cpus s =
     (if \<not> cpumask_test_cpu cpu checked_cpus then
        (case cur_ticket_per_cpu s cpu of
           Some tkt \<Rightarrow>
             (let di = dom_info (ticket_mem s tkt)
              in case update_times_in_ticket g s tkt now NORMAL_SCHEDULING of
                   Inl e \<Rightarrow> Inl e
                 | Inr s1 \<Rightarrow>
                     update_current_tickets_loop g now cpus
                       (cpumask_or checked_cpus (cpumask di))
                       (s1\<lparr>ticket_mem := (ticket_mem s1)
                              (tkt := (ticket_mem s1 tkt)\<lparr>on_my_behalf := None\<rparr>)\<rparr>))
         | None \<Rightarrow> update_current_tickets_loop g now cpus checked_cpus s)
      else update_current_tickets_loop g now cpus checked_cpus s)"

definition update_current_tickets ::
    "('n::len) gang_globals \<Rightarrow> 'n sched_info_t \<Rightarrow> s_time_t \<Rightarrow> fault + 'n sched_info_t" where
  "update_current_tickets g s now =
     (case update_current_tickets_loop g now [0..<LENGTH('n)] 0 s of
        Inl e \<Rightarrow> Inl e
      | Inr s1 \<Rightarrow> Inr (s1\<lparr>cur_ticket_per_cpu := (\<lambda>_. None)\<rparr>))"

text \<open>
  The \<^verbatim>\<open>while\<close> loop of \<^verbatim>\<open>__update_sched_info\<close>: as long as the head of the activation
  queue is due, it is removed, its \<^verbatim>\<open>GSBIT_WAS_WAITING_FOR_EVENT\<close> flag is cleared, and it
  is inserted into the runnable queue.  Each round shortens the activation queue.
\<close>

function activate_due_tickets ::
    "('n::len) sched_info_t \<Rightarrow> s_time_t \<Rightarrow> fault + 'n sched_info_t" where
  "activate_due_tickets s now =
     (case head_of_activation_Q s of
        None \<Rightarrow> Inr s
      | Some tkt \<Rightarrow>
          if earliest_start_time (ticket_mem s tkt) \<le>s now then
            (let s1 = s\<lparr>activation_Q := RB_REMOVE tkt (activation_Q s)\<rparr>;
                 t = ticket_mem s1 tkt;
                 s2 = (if bit (flags t) GSBIT_WAS_WAITING_FOR_EVENT
                       then s1\<lparr>ticket_mem := (ticket_mem s1)
                              (tkt := t\<lparr>flags := unset_bit GSBIT_WAS_WAITING_FOR_EVENT (flags t)\<rparr>)\<rparr>
                       else s1)
             in activate_due_tickets (insert_into_runnable_Q s2 tkt) now)
          else Inr s)"
  by pat_completeness auto
termination
  by (relation "measure (\<lambda>(s, now). length (activation_Q s))")
     (auto simp: head_of_activation_Q_def RB_MIN_def RB_REMOVE_def insert_into_runnable_Q_def
           split: list.splits)

declare activate_due_tickets.simps [simp del]

definition update_sched_info ::
    "('n::len) gang_globals \<Rightarrow> 'n sched_info_t \<Rightarrow> s_time_t
       \<Rightarrow> fault + ('n sched_info_t \<times> s_time_t)" where
  "update_sched_info g s now =
     (case update_current_tickets g s now of
        Inl e \<Rightarrow> Inl e
      | Inr s1 \<Rightarrow>
          if now = INFINITY then Inr (s1, INFINITY)
          else (case activate_due_tickets s1 now of
                  Inl e \<Rightarrow> Inl e
                | Inr s2 \<Rightarrow>
                    (case head_of_activation_Q s2 of
                       Some ht \<Rightarrow> Inr (s2, earliest_start_time (ticket_mem s2 ht))
                     | None \<Rightarrow> Inr (s2, INFINITY))))"

subsection \<open>The schedule decision\<close>

record task_slice =
  task :: vcpu
  time :: s_time_t
  migrated :: bool

text \<open>The local variables of \<^verbatim>\<open>gang_do_schedule\<close> that the selection loop updates.\<close>

record (overloaded) ('n::len) do_schedule_vars =
  sched :: "'n sched_info_t"
  assigned_cpus :: "'n word"
  end_of_time_slice :: s_time_t
  num_of_runnable_domains :: nat
  non_muxed_domain_present :: bool

text \<open>
  The \<^verbatim>\<open>for\<close> loop that installs the selected ticket: for every \<^verbatim>\<open>i\<close> below \<^verbatim>\<open>NR_CPUS\<close>
  that is in the domain's CPU mask, \<^verbatim>\<open>BUG_ON(s->cur_ticket_per_cpu[i] != NULL)\<close> and then
  \<^verbatim>\<open>s->cur_ticket_per_cpu[i] = ticket\<close>.
\<close>

fun install_ticket ::
    "nat list \<Rightarrow> ('n::len) word \<Rightarrow> ticket_ptr \<Rightarrow> (nat \<Rightarrow> ticket_ptr option)
       \<Rightarrow> fault + (nat \<Rightarrow> ticket_ptr option)" where
  "install_ticket [] m ticket cur = Inr cur"
| "install_ticket (i # is) m ticket cur =
     (if cpumask_test_cpu i m then
        (case cur i of
           Some _ \<Rightarrow> Inl BUG
         | None \<Rightarrow> install_ticket is m ticket (cur(i := Some ticket)))
      else install_ticket is m ticket cur)"

text \<open>
  One round of the \<^verbatim>\<open>while\<close> loop over the runnable queue.  The result carries the
  updated variables and whether the round ends with \<^verbatim>\<open>break\<close> (the assigned CPUs equal
  the cohort of this CPU).  \<^verbatim>\<open>cohorts[cpu_id]\<close> is read inside the array.
\<close>

definition do_schedule_round ::
    "('n::len) gang_globals \<Rightarrow> nat \<Rightarrow> s_time_t \<Rightarrow> 'n do_schedule_vars
       \<Rightarrow> fault + ('n do_schedule_vars \<times> bool)" where
  "do_schedule_round g cpu_id now v =
     (case remove_from_runnable_Q (sched v) (head_of_runnable_Q (sched v)) of
        Inl e \<Rightarrow> Inl e
      | Inr (s1, ticket) \<Rightarrow>
          (let t = ticket_mem s1 ticket;
               di = dom_info t;
               v1 = v\<lparr>sched := s1,
                      num_of_runnable_domains := num_of_runnable_domains v + 1\<rparr>;
               after = (if \<not> cpumask_intersects (assigned_cpus v1) (cpumask di) then
                  (case install_ticket [0..<LENGTH('n)] (cpumask di) ticket
                          (cur_ticket_per_cpu s1) of
                     Inl e \<Rightarrow> Inl e
                   | Inr cur \<Rightarrow>
                       (let s2 = s1\<lparr>cur_ticket_per_cpu := cur,
                                     ticket_mem := (ticket_mem s1)
                                        (ticket := t\<lparr>activated_at := now\<rparr>)\<rparr>;
                            tval = (case tm_muxing_spec di of
                                      GANG_NO_MUXING _ \<Rightarrow> INFINITY
                                    | _ \<Rightarrow> now + remaining_time t);
                            v2 = v1\<lparr>sched := s2,
                                   assigned_cpus := cpumask_or (assigned_cpus v1) (cpumask di),
                                   end_of_time_slice := MIN_time (end_of_time_slice v1) tval\<rparr>
                        in case tm_muxing_spec di of
                             GANG_NO_MUXING _ \<Rightarrow>
                               if remaining_time t \<noteq> INFINITY then Inl BUG
                               else Inr (v2\<lparr>non_muxed_domain_present := True\<rparr>)
                           | _ \<Rightarrow>
                               if remaining_time t = INFINITY then Inl BUG
                               else if remaining_time t <s MARGIN then Inl BUG
                               else Inr v2))
                else
                  (let tval = deadline t - remaining_time t
                   in if tval \<le>s 0 then Inl BUG
                      else
                        (let tval' = (if tval \<le>s now then now + ms_2_ns 1 else tval)
                         in Inr (v1\<lparr>sched := insert_into_activation_Q s1 ticket,
                                    end_of_time_slice :=
                                      MIN_time (end_of_time_slice v1) tval'\<rparr>))))
           in case after of
                Inl e \<Rightarrow> Inl e
              | Inr v3 \<Rightarrow>
                  if length (cohorts g) \<le> cpu_id then Inl OUT_OF_BOUNDS
                  else Inr (v3, cpumask_equal (assigned_cpus v3) (cohorts g ! cpu_id))))"

lemma do_schedule_round_shortens:
  assumes "do_schedule_round g cpu_id now v = Inr (v', brk)"
  shows "length (edf_runnable_Q (sched v')) < length (edf_runnable_Q (sched v))"
proof -
  obtain s1 ticket where
    r: "remove_from_runnable_Q (sched v) (head_of_runnable_Q (sched v)) = Inr (s1, ticket)"
    using assms by (auto simp: do_schedule_round_def split: sum.splits)
  then have l: "length (edf_runnable_Q s1) < length (edf_runnable_Q (sched v))"
    by (auto simp: remove_from_runnable_Q_def head_of_runnable_Q_def RB_MIN_def RB_EMPTY_def
        RB_REMOVE_def split: option.splits list.splits if_splits)
  have "edf_runnable_Q (sched v') = edf_runnable_Q s1"
    using assms r
    by (auto simp: do_schedule_round_def Let_def insert_into_activation_Q_def
        split: sum.splits if_splits gang_sched_policy_t.splits)
  with l show ?thesis by simp
qed

function do_schedule_loop ::
    "('n::len) gang_globals \<Rightarrow> nat \<Rightarrow> s_time_t \<Rightarrow> 'n do_schedule_vars
       \<Rightarrow> fault + 'n do_schedule_vars" where
  "do_schedule_loop g cpu_id now v =
     (if is_runnable_Q_empty (sched v) then Inr v
      else (case do_schedule_round g cpu_id now v of
              Inl e \<Rightarrow> Inl e
            | Inr (v', brk) \<Rightarrow> if brk then Inr v' else do_schedule_loop g cpu_id now v'))"
  by pat_completeness auto
termination
  by (relation "measure (\<lambda>(g, cpu_id, now, v). length (edf_runnable_Q (sched v)))")
     (auto dest: do_schedule_round_shortens)

declare do_schedule_loop.simps [simp del]

text \<open>
  The code from the label \<^verbatim>\<open>EXIT_GANG_DO_SCHEDULE\<close> on: the VCPU of the ticket chosen for
  this CPU, or the idle VCPU, and the length of the time slice; \<open>eots\<close> is the local
  variable \<^verbatim>\<open>end_of_time_slice\<close> at that point.
\<close>

definition exit_gang_do_schedule ::
    "('n::len) gang_globals \<Rightarrow> nat \<Rightarrow> s_time_t \<Rightarrow> 'n sched_info_t \<Rightarrow> ticket_ptr option
       \<Rightarrow> s_time_t \<Rightarrow> fault + ('n sched_info_t \<times> task_slice)" where
  "exit_gang_do_schedule g cpu_id now s ticket eots =
     (let ret_time = (if eots <s INFINITY
                      then (if eots - now <s 0 then 0 else eots - now)
                      else - 1)
      in case ticket of
           Some tk \<Rightarrow>
             (case vcpu (ticket_mem s tk) of
                None \<Rightarrow> Inl BUG
              | Some v \<Rightarrow>
                  if is_idle_vcpu v then Inl BUG
                  else Inr (s, \<lparr>task = v, time = ret_time, migrated = False\<rparr>))
         | None \<Rightarrow> Inr (s, \<lparr>task = idle_vcpu g cpu_id, time = ret_time, migrated = False\<rparr>))"

text \<open>
  The handling of a yielding guest: \<open>current\<close> is Xen's \<^verbatim>\<open>current\<close> VCPU, whose
  \<^verbatim>\<open>sched_priv\<close> is dereferenced.  The substitute is always \<^verbatim>\<open>NULL\<close> (the call of
  \<^verbatim>\<open>__get_substitute_ticket\<close> is commented out), which forces the idle VCPU.
\<close>

definition handle_guest_yield ::
    "('n::len) sched_info_t \<Rightarrow> vcpu \<Rightarrow> ticket_ptr option
       \<Rightarrow> fault + ('n sched_info_t \<times> ticket_ptr option)" where
  "handle_guest_yield s current ticket =
     (if \<not> is_idle_vcpu current then
        (case sched_priv current of
           None \<Rightarrow> Inl OUT_OF_BOUNDS
         | Some cur_tkt \<Rightarrow>
             (let cur_di = dom_info (ticket_mem s cur_tkt);
                  yielding = (ticket = Some cur_tkt
                     \<and> policy_type (tm_muxing_spec cur_di) \<noteq> 1
                     \<and> bit (flags (ticket_mem s cur_tkt)) GSBIT_SINGLE_VCPU_YIELD);
                  s1 = (if yielding
                        then s\<lparr>ticket_mem := (ticket_mem s)
                               (cur_tkt := (ticket_mem s cur_tkt)\<lparr>on_my_behalf := None\<rparr>)\<rparr>
                        else s);
                  ticket' = (if yielding then None else ticket);
                  tc = ticket_mem s1 cur_tkt
              in Inr (s1\<lparr>ticket_mem := (ticket_mem s1)
                         (cur_tkt := tc\<lparr>flags := unset_bit GSBIT_SINGLE_VCPU_YIELD (flags tc)\<rparr>)\<rparr>,
                      ticket')))
      else Inr (s, ticket))"

text \<open>
  \<^verbatim>\<open>gang_do_schedule\<close> on CPU \<open>cpu_id\<close>, whose local scheduler is \<open>sp\<close>
  (\<^verbatim>\<open>LOCAL_SCHED_INFO(cpu_id)\<close>, possibly \<^verbatim>\<open>NULL\<close>).
\<close>

definition gang_do_schedule ::
    "('n::len) gang_globals \<Rightarrow> nat \<Rightarrow> vcpu \<Rightarrow> 'n sched_info_t option \<Rightarrow> s_time_t \<Rightarrow> bool
       \<Rightarrow> fault + ('n sched_info_t \<times> task_slice)" where
  "gang_do_schedule g cpu_id current sp now tasklet_work_scheduled =
     (case sp of
        None \<Rightarrow> Inl BUG
      | Some s \<Rightarrow>
          if num_of_cohorts g = 0 \<or> num_of_muxgroups g = 0 then
            (if num_of_cohorts g \<noteq> 0 \<or> num_of_muxgroups g \<noteq> 0 then Inl BUG
             else exit_gang_do_schedule g cpu_id now s None INFINITY)
          else
            (case update_sched_info g s now of
               Inl e \<Rightarrow> Inl e
             | Inr (s1, earliest_actv) \<Rightarrow>
                 if tasklet_work_scheduled
                 then exit_gang_do_schedule g cpu_id now s1 None INFINITY
                 else
                   (case do_schedule_loop g cpu_id now
                           \<lparr>sched = s1, assigned_cpus = 0, end_of_time_slice = INFINITY,
                            num_of_runnable_domains = 0,
                            non_muxed_domain_present = False\<rparr> of
                      Inl e \<Rightarrow> Inl e
                    | Inr v \<Rightarrow>
                        if non_muxed_domain_present v \<and> 1 < num_of_runnable_domains v
                        then Inl PANIC
                        else
                          (let s2 = sched v;
                               ticket = cur_ticket_per_cpu s2 cpu_id;
                               eots = MIN_time (end_of_time_slice v) earliest_actv
                           in case (if eots <s INFINITY
                                    then floor_to_grain (sched_ratelimit_us g) eots
                                    else Inr eots) of
                                Inl e \<Rightarrow> Inl e
                              | Inr eots' \<Rightarrow>
                                  (case handle_guest_yield s2 current ticket of
                                     Inl e \<Rightarrow> Inl e
                                   | Inr (s3, ticket') \<Rightarrow>
                                       exit_gang_do_schedule g cpu_id now s3 ticket' eots')))))"

subsection \<open>The gang invariant of the selection loop\<close>

text \<open>
  What the selection loop maintains: every entry of the table of current tickets lies on
  an assigned CPU of the ticket's own domain, and the ticket is the entry of every CPU of
  that domain.
\<close>

definition table_inv :: "('n::len) do_schedule_vars \<Rightarrow> bool" where
  "table_inv v \<longleftrightarrow>
     (\<forall>c t. cur_ticket_per_cpu (sched v) c = Some t \<longrightarrow>
        bit (assigned_cpus v) c
        \<and> bit (cpumask (dom_info (ticket_mem (sched v) t))) c
        \<and> (\<forall>c'. bit (cpumask (dom_info (ticket_mem (sched v) t))) c'
              \<longrightarrow> cur_ticket_per_cpu (sched v) c' = Some t))"

section \<open>Cohorts\<close>

text \<open>
  \<^verbatim>\<open>__update_cohorts(di, __cohorts, __num_of_cohorts)\<close>.  The array of cohort masks has
  \<^verbatim>\<open>NR_CPUS\<close> slots and is a list; \<open>num\<close> is \<^verbatim>\<open>*__num_of_cohorts\<close>.  A slot at or past the
  end of the array is not read or written: the model stops with \<open>OUT_OF_BOUNDS\<close> where
  the C code would leave the array.

  The first loop looks for the first cohort that the domain's mask intersects and, when
  the mask is not a subset of it, adds the mask to it; the result says whether the loop
  ended by \<^verbatim>\<open>break\<close> (the C variable \<^verbatim>\<open>intersect\<close>).
\<close>

fun update_cohorts_scan ::
    "('n::len) word \<Rightarrow> nat list \<Rightarrow> 'n word list \<Rightarrow> 'n word list \<times> bool" where
  "update_cohorts_scan m [] cs = (cs, False)"
| "update_cohorts_scan m (n # ns) cs =
     (if cpumask_intersects m (cs ! n)
      then ((if \<not> cpumask_subset m (cs ! n) then cs[n := cpumask_or (cs ! n) m] else cs), True)
      else update_cohorts_scan m ns cs)"

text \<open>
  The merging loop.  \<open>first_overlap\<close> is the inner \<^verbatim>\<open>for\<close> loop over \<^verbatim>\<open>j = i+1 .. num-1\<close> up
  to its \<^verbatim>\<open>break\<close>; \<open>fill_hole\<close> is the loop that moves the cohorts behind \<^verbatim>\<open>j\<close> one slot
  down (\<^verbatim>\<open>__cohorts[k-1] = __cohorts[k]\<close> for \<^verbatim>\<open>k = j+1 .. num-1\<close>), which leaves the last
  slot as it was.  In \<open>merge_cohorts\<close> the C condition \<^verbatim>\<open>i < (*__num_of_cohorts) - 1\<close> is
  \<open>i + 1 < num\<close>: the count is at least 1 when the loop is reached, and \<^verbatim>\<open>i = -1; i++\<close>
  restarts at 0.
\<close>

fun first_overlap :: "('n::len) word list \<Rightarrow> nat \<Rightarrow> nat list \<Rightarrow> nat option" where
  "first_overlap cs i [] = None"
| "first_overlap cs i (j # js) =
     (if cpumask_intersects (cs ! i) (cs ! j) then Some j else first_overlap cs i js)"

fun fill_hole :: "nat list \<Rightarrow> ('n::len) word list \<Rightarrow> 'n word list" where
  "fill_hole [] cs = cs"
| "fill_hole (k # ks) cs = fill_hole ks (cs[k - 1 := cs ! k])"

function merge_cohorts ::
    "('n::len) word list \<Rightarrow> nat \<Rightarrow> nat \<Rightarrow> 'n word list \<times> nat" where
  "merge_cohorts cs num i =
     (if i + 1 < num then
        (case first_overlap cs i [i + 1..<num] of
           Some j \<Rightarrow>
             merge_cohorts (fill_hole [j + 1..<num] (cs[i := cpumask_or (cs ! i) (cs ! j)]))
               (num - 1) 0
         | None \<Rightarrow> merge_cohorts cs num (i + 1))
      else (cs, num))"
  by pat_completeness auto
termination
  by (relation "measures [\<lambda>(cs, num, i). num, \<lambda>(cs, num, i). num - i]") auto

declare merge_cohorts.simps [simp del]

definition update_cohorts ::
    "('n::len) gang_dom_info_t \<Rightarrow> 'n word list \<Rightarrow> nat \<Rightarrow> fault + ('n word list \<times> nat)" where
  "update_cohorts di cs num =
     (if length cs < num then Inl OUT_OF_BOUNDS
      else
        (case update_cohorts_scan (cpumask di) [0..<num] cs of
           (cs1, intersect) \<Rightarrow>
             if \<not> intersect then
               (if length cs1 \<le> num then Inl OUT_OF_BOUNDS
                else Inr (merge_cohorts
                            (cs1[num := cpumask_or (cs1 ! num) (cpumask di)]) (num + 1) 0))
             else Inr (merge_cohorts cs1 num 0)))"

text \<open>
  The loop of \<^verbatim>\<open>__populate_cohorts_and_muxgroups\<close> that passes every domain of the array to
  \<^verbatim>\<open>__update_cohorts\<close>, starting from a count of zero.  (The call of
  \<^verbatim>\<open>__add_dom_to_muxgroups\<close> in the same loop works on the mux group arrays only.)
\<close>

fun update_cohorts_all ::
    "('n::len) gang_dom_info_t list \<Rightarrow> 'n word list \<Rightarrow> nat
       \<Rightarrow> fault + ('n word list \<times> nat)" where
  "update_cohorts_all [] cs num = Inr (cs, num)"
| "update_cohorts_all (di # dis) cs num =
     (case update_cohorts di cs num of
        Inl e \<Rightarrow> Inl e
      | Inr (cs1, num1) \<Rightarrow> update_cohorts_all dis cs1 num1)"

text \<open>
  \<^verbatim>\<open>__set_cohort_in_domain\<close>: the first cohort that contains the domain's mask, with
  \<^verbatim>\<open>BUG_ON(found == FALSE)\<close>.
\<close>

fun find_cohort :: "('n::len) word \<Rightarrow> 'n word list \<Rightarrow> nat list \<Rightarrow> nat option" where
  "find_cohort m cs [] = None"
| "find_cohort m cs (nc # ncs) =
     (if cpumask_subset m (cs ! nc) then Some nc else find_cohort m cs ncs)"

definition set_cohort_in_domain ::
    "('n::len) gang_dom_info_t \<Rightarrow> 'n word list \<Rightarrow> nat \<Rightarrow> fault + 'n gang_dom_info_t" where
  "set_cohort_in_domain di cs num =
     (case find_cohort (cpumask di) cs [0..<num] of
        None \<Rightarrow> Inl BUG
      | Some nc \<Rightarrow> Inr (di\<lparr>cohort := int nc\<rparr>))"

text \<open>
  Two properties of an array of \<open>num\<close> cohorts: no two of them share a CPU, and a given
  mask lies inside one of them.
\<close>

definition cohorts_disjoint :: "('n::len) word list \<Rightarrow> nat \<Rightarrow> bool" where
  "cohorts_disjoint cs num \<longleftrightarrow>
     (\<forall>i j. i < num \<and> j < num \<and> i \<noteq> j \<longrightarrow> \<not> cpumask_intersects (cs ! i) (cs ! j))"

definition covered :: "('n::len) word \<Rightarrow> 'n word list \<Rightarrow> nat \<Rightarrow> bool" where
  "covered m cs num \<longleftrightarrow> (\<exists>k. k < num \<and> cpumask_subset m (cs ! k))"

text \<open>
  What the merging loop has established when it looks at cohort \<open>i\<close>: no cohort before
  \<open>i\<close> intersects a later one.
\<close>

definition scanned :: "('n::len) word list \<Rightarrow> nat \<Rightarrow> nat \<Rightarrow> bool" where
  "scanned cs num i \<longleftrightarrow>
     (\<forall>a b. a < i \<and> a < b \<and> b < num \<longrightarrow> \<not> cpumask_intersects (cs ! a) (cs ! b))"

section \<open>The schedulability test of the control tool (\<^verbatim>\<open>gs_sched_test.cc\<close>)\<close>

text \<open>
  \<^verbatim>\<open>gs_dominfo_t\<close>: \<^verbatim>\<open>domid\<close> and the CPU ids are \<^verbatim>\<open>int32_t\<close> (words read with \<open>sint\<close>), the
  array \<^verbatim>\<open>cpus\<close> is a list and \<^verbatim>\<open>num_of_cpus\<close> the count the caller gives for it.  The
  argument \<^verbatim>\<open>arr\<close> with its length \<^verbatim>\<open>len\<close> is a list of pointers, \<open>None\<close> for \<^verbatim>\<open>NULL\<close>.
\<close>

record gs_dominfo_t =
  domid :: "32 word"
  cpus :: "32 word list"
  num_of_cpus :: "32 word"
  gang_sched_policy :: gang_sched_policy_t

text \<open>
  The test computes in \<^verbatim>\<open>double\<close>.  The arithmetic of doubles is a parameter: the
  conversion from an unsigned 64-bit integer, division, addition and the two comparisons
  the code uses; the literals \<^verbatim>\<open>0.0\<close>, \<^verbatim>\<open>1.0\<close> and \<^verbatim>\<open>100\<close> are the conversions of 0, 1
  and 100.
\<close>

record 'd double_ops =
  of_uint64 :: "uint64_t \<Rightarrow> 'd"
  fdiv :: "'d \<Rightarrow> 'd \<Rightarrow> 'd"
  fadd :: "'d \<Rightarrow> 'd \<Rightarrow> 'd"
  fgreater :: "'d \<Rightarrow> 'd \<Rightarrow> bool"
  fless_eq :: "'d \<Rightarrow> 'd \<Rightarrow> bool"

definition EINVAL :: int where
  "EINVAL = 22"

text \<open>
  \<^verbatim>\<open>__validate_dominfos\<close>.  A \<^verbatim>\<open>NULL\<close> entry is dereferenced by the \<^verbatim>\<open>printf\<close> of its
  branch.  The two \<^verbatim>\<open>assert\<close>s on a CPU id come before the test that returns \<^verbatim>\<open>false\<close>;
  \<open>ndebug\<close> says that the file is compiled with \<^verbatim>\<open>NDEBUG\<close>, which removes every \<^verbatim>\<open>assert\<close>.
  A CPU id is read inside the array \<^verbatim>\<open>cpus\<close> only.
\<close>

fun validate_cpu_ids :: "bool \<Rightarrow> 32 word \<Rightarrow> 32 word list \<Rightarrow> nat list \<Rightarrow> fault + bool" where
  "validate_cpu_ids ndebug cpu_count cs [] = Inr True"
| "validate_cpu_ids ndebug cpu_count cs (c # rest) =
     (if length cs \<le> c then Inl OUT_OF_BOUNDS
      else
        (let cpuid = cs ! c
         in if \<not> ndebug \<and> cpuid <s 0 then Inl ASSERT_FAILED
            else if \<not> ndebug \<and> \<not> cpuid <s cpu_count then Inl ASSERT_FAILED
            else if cpuid <s 0 \<or> cpu_count \<le>s cpuid then Inr False
            else validate_cpu_ids ndebug cpu_count cs rest))"

fun validate_dominfos ::
    "bool \<Rightarrow> gs_dominfo_t option list \<Rightarrow> uint64_t \<Rightarrow> fault + bool" where
  "validate_dominfos ndebug [] cpu_count = Inr True"
| "validate_dominfos ndebug (None # arr) cpu_count = Inl OUT_OF_BOUNDS"
| "validate_dominfos ndebug (Some di # arr) cpu_count =
     (if domid di <s 0 then Inr False
      else if num_of_cpus di <s 0 \<or> ucast cpu_count <s num_of_cpus di then Inr False
      else
        (case validate_cpu_ids ndebug (ucast cpu_count) (cpus di)
                [0..<nat (sint (num_of_cpus di))] of
           Inl e \<Rightarrow> Inl e
         | Inr False \<Rightarrow> Inr False
         | Inr True \<Rightarrow>
             if \<not> validate_muxing_policy (gang_sched_policy di) then Inr False
             else validate_dominfos ndebug arr cpu_count))"

text \<open>
  \<^verbatim>\<open>__populate_cpu2dom\<close>: the map from a CPU to the set of domains on it, with its
  \<^verbatim>\<open>assert\<close>s: a domain has at least one CPU and at most \<^verbatim>\<open>cpu_count\<close>, a CPU id is in
  range, and the insertion into the set of the CPU adds a new element.
\<close>

fun populate_cpus ::
    "bool \<Rightarrow> uint64_t \<Rightarrow> gs_dominfo_t \<Rightarrow> nat list \<Rightarrow> (nat \<Rightarrow> nat set)
       \<Rightarrow> fault + (nat \<Rightarrow> nat set)" where
  "populate_cpus ndebug cpu_count di [] cpu2dom = Inr cpu2dom"
| "populate_cpus ndebug cpu_count di (c # rest) cpu2dom =
     (if length (cpus di) \<le> c then Inl OUT_OF_BOUNDS
      else
        (let cpuid = cpus di ! c
         in if \<not> ndebug \<and> cpuid <s 0 then Inl ASSERT_FAILED
            else if \<not> ndebug \<and> \<not> cpuid <s ucast cpu_count then Inl ASSERT_FAILED
            else
              (let k = unat (scast cpuid :: uint64_t);
                   d = unat (scast (domid di) :: uint64_t)
               in if \<not> ndebug \<and> d \<in> cpu2dom k then Inl ASSERT_FAILED
                  else populate_cpus ndebug cpu_count di rest
                         (cpu2dom(k := insert d (cpu2dom k))))))"

fun populate_cpu2dom ::
    "bool \<Rightarrow> gs_dominfo_t option list \<Rightarrow> uint64_t \<Rightarrow> (nat \<Rightarrow> nat set)
       \<Rightarrow> fault + (nat \<Rightarrow> nat set)" where
  "populate_cpu2dom ndebug [] cpu_count cpu2dom = Inr cpu2dom"
| "populate_cpu2dom ndebug (None # arr) cpu_count cpu2dom = Inl OUT_OF_BOUNDS"
| "populate_cpu2dom ndebug (Some di # arr) cpu_count cpu2dom =
     (if \<not> ndebug \<and> \<not> 0 <s num_of_cpus di then Inl ASSERT_FAILED
      else if \<not> ndebug \<and> \<not> num_of_cpus di \<le>s ucast cpu_count then Inl ASSERT_FAILED
      else
        (case populate_cpus ndebug cpu_count di [0..<nat (sint (num_of_cpus di))] cpu2dom of
           Inl e \<Rightarrow> Inl e
         | Inr m \<Rightarrow> populate_cpu2dom ndebug arr cpu_count m))"

text \<open>
  The loops of the test proper.  \<open>util\<close> is the vector \<^verbatim>\<open>total_util_per_cpu\<close> and
  \<open>seen\<close> the vector \<^verbatim>\<open>bedom_considered_in_cpu\<close>, both of \<^verbatim>\<open>cpu_count\<close> entries and indexed
  inside their bounds only.
\<close>

fun is_best_effort :: "gang_sched_policy_t \<Rightarrow> bool" where
  "is_best_effort (GANG_BEST_EFFORT_MUXING _) = True"
| "is_best_effort _ = False"

fun charge_cpus ::
    "'d double_ops \<Rightarrow> gs_dominfo_t \<Rightarrow> 'd \<Rightarrow> nat list \<Rightarrow> 'd list \<times> bool list
       \<Rightarrow> fault + ('d list \<times> bool list)" where
  "charge_cpus ops di u [] (util, seen) = Inr (util, seen)"
| "charge_cpus ops di u (c # rest) (util, seen) =
     (if length (cpus di) \<le> c then Inl OUT_OF_BOUNDS
      else
        (let cpuid = unat (scast (cpus di ! c) :: uint64_t)
         in if length util \<le> cpuid then Inl OUT_OF_BOUNDS
            else if is_best_effort (gang_sched_policy di) then
              (if \<not> seen ! cpuid
               then charge_cpus ops di u rest
                      (util[cpuid := fadd ops (util ! cpuid) u], seen[cpuid := True])
               else charge_cpus ops di u rest (util, seen))
            else charge_cpus ops di u rest
                   (util[cpuid := fadd ops (util ! cpuid) u], seen)))"

fun domain_util :: "'d double_ops \<Rightarrow> 'd \<Rightarrow> gang_sched_policy_t \<Rightarrow> fault + 'd" where
  "domain_util ops bedom_util (GANG_NO_MUXING p) = Inr (of_uint64 ops 1)"
| "domain_util ops bedom_util (GANG_TIME_TRIG_MUXING p) =
     Inr (fdiv ops (of_uint64 ops (tt_active_time p)) (of_uint64 ops (tt_period p)))"
| "domain_util ops bedom_util (GANG_EVENT_TRIG_MUXING p) =
     Inr (fdiv ops (of_uint64 ops (et_active_time p)) (of_uint64 ops (et_period p)))"
| "domain_util ops bedom_util (GANG_BEST_EFFORT_MUXING p) = Inr bedom_util"
| "domain_util ops bedom_util _ = Inl PANIC"

fun charge_domains ::
    "'d double_ops \<Rightarrow> bool \<Rightarrow> uint64_t \<Rightarrow> 'd \<Rightarrow> gs_dominfo_t option list
       \<Rightarrow> 'd list \<times> bool list \<Rightarrow> fault + ('d list \<times> bool list)" where
  "charge_domains ops ndebug cpu_count bedom_util [] us = Inr us"
| "charge_domains ops ndebug cpu_count bedom_util (None # arr) us = Inl OUT_OF_BOUNDS"
| "charge_domains ops ndebug cpu_count bedom_util (Some di # arr) us =
     (if \<not> ndebug \<and> \<not> 0 <s num_of_cpus di then Inl ASSERT_FAILED
      else if \<not> ndebug \<and> \<not> num_of_cpus di \<le>s ucast cpu_count then Inl ASSERT_FAILED
      else
        (case domain_util ops bedom_util (gang_sched_policy di) of
           Inl e \<Rightarrow> Inl e
         | Inr u \<Rightarrow>
             if \<not> ndebug \<and> \<not> fgreater ops u (of_uint64 ops 0) then Inl ASSERT_FAILED
             else if \<not> ndebug \<and> \<not> fless_eq ops u (of_uint64 ops 1) then Inl ASSERT_FAILED
             else
               (case charge_cpus ops di u [0..<nat (sint (num_of_cpus di))] us of
                  Inl e \<Rightarrow> Inl e
                | Inr us' \<Rightarrow> charge_domains ops ndebug cpu_count bedom_util arr us')))"

text \<open>
  \<^verbatim>\<open>are_schedulable\<close>: the returned \<^verbatim>\<open>int\<close> (0 passed, 1 failed, \<open>- EINVAL\<close> for a bad
  argument) and the report, which names every CPU whose utilisation is greater than
  \<^verbatim>\<open>1.0\<close> with the domains on it.  \<^verbatim>\<open>exit(EXIT_FAILURE)\<close> on an invalid policy is \<open>PANIC\<close>.
\<close>

definition are_schedulable ::
    "'d double_ops \<Rightarrow> bool \<Rightarrow> gs_dominfo_t option list \<Rightarrow> uint64_t \<Rightarrow> uint64_t \<Rightarrow> uint64_t
       \<Rightarrow> fault + (int \<times> (nat \<times> nat set) list)" where
  "are_schedulable ops ndebug arr be_reserve be_basic_period cpu_count =
     (if cpu_count \<le> 0 then Inr (- EINVAL, [])
      else if be_reserve = 100 then Inr (1, [])
      else if 100 < be_reserve then Inr (- EINVAL, [])
      else if be_basic_period = 0 then Inr (- EINVAL, [])
      else
        (case validate_dominfos ndebug arr cpu_count of
           Inl e \<Rightarrow> Inl e
         | Inr False \<Rightarrow> Inr (- EINVAL, [])
         | Inr True \<Rightarrow>
             (case populate_cpu2dom ndebug arr cpu_count (\<lambda>_. {}) of
                Inl e \<Rightarrow> Inl e
              | Inr cpu2dom \<Rightarrow>
                  (let bedom_util = fdiv ops (of_uint64 ops be_reserve) (of_uint64 ops 100)
                   in case charge_domains ops ndebug cpu_count bedom_util arr
                             (replicate (unat cpu_count) (of_uint64 ops 0),
                              replicate (unat cpu_count) False) of
                        Inl e \<Rightarrow> Inl e
                      | Inr (util, seen) \<Rightarrow>
                          (let failed = filter (\<lambda>cpuid. fgreater ops (util ! cpuid)
                                                   (of_uint64 ops 1))
                                          [0..<unat cpu_count]
                           in Inr (if failed = [] then 0 else 1,
                                   map (\<lambda>cpuid. (cpuid, cpu2dom cpuid)) failed))))))"

text \<open>
  Exact rational arithmetic as one instance of the double operations, to run the test on
  small numbers.
\<close>

definition rat_ops :: "rat double_ops" where
  "rat_ops = \<lparr>of_uint64 = (\<lambda>w. of_nat (unat w)), fdiv = (\<lambda>a b. a / b), fadd = (\<lambda>a b. a + b),
              fgreater = (\<lambda>a b. b < a), fless_eq = (\<lambda>a b. a \<le> b)\<rparr>"

section \<open>The global adjustment: \<^verbatim>\<open>putinfo\<close> and \<^verbatim>\<open>getinfo\<close>\<close>

subsection \<open>The configuration and the domains\<close>

text \<open>
  Modelled from the spec: the configuration blob of \<^verbatim>\<open>public/sysctl.h\<close> is not among the
  sources.  An entry has a domain id (\<^verbatim>\<open>int32\<close>), a bitmap of pool CPUs and a policy; the
  container has the number of entries (\<^verbatim>\<open>u16\<close>) and the array of entries.  The bitmap is
  the CPU mask it stands for: \<^verbatim>\<open>xenctl_bitmap_to_cpumask\<close> and
  \<^verbatim>\<open>cpumask_to_xenctl_bitmap\<close> are Xen's and are taken to convert without an error.
\<close>

record (overloaded) ('n::len) gang_sched_dom_conf_t =
  dom_entry_domid :: "32 word"
  dom_entry_cpumap :: "'n word"
  dom_entry_gang_sched_policy :: gang_sched_policy_t

record (overloaded) ('n::len) xen_sysctl_gang_schedule_t =
  num_dom_entries :: "16 word"
  dom_entries :: "'n gang_sched_dom_conf_t list"

text \<open>
  What \<^verbatim>\<open>gang_adjust_global\<close> reads of a \<^verbatim>\<open>struct domain\<close>: the id of its CPU pool, the
  number of VCPUs that \<^verbatim>\<open>for_each_vcpu\<close> visits, \<^verbatim>\<open>max_vcpus\<close>, and the private scheduling
  info \<^verbatim>\<open>DOMAIN_SCHED_INFO(d)\<close>, whose field \<open>domain_id\<close> is the id of the domain itself
  (\<^verbatim>\<open>gang_alloc_domdata\<close> sets \<^verbatim>\<open>dom_info->domain = dom\<close>).

  The hypervisor: Xen's list of domains, in its order; a pointer to a domain is an index
  into this list.  \<open>cpu_valid\<close> gives the CPUs of a pool by the id of the pool, \<open>this_cpu\<close>
  is \<^verbatim>\<open>smp_processor_id()\<close>, the two flags say whether the caller runs in \<^verbatim>\<open>dom0\<close> and in
  \<^verbatim>\<open>cpupool0\<close>, and \<open>max_domains\<close> is the constant \<^verbatim>\<open>GANG_SCHED_MAX_DOMAINS\<close> of
  \<^verbatim>\<open>public/sysctl.h\<close>.
\<close>

record (overloaded) ('n::len) domain =
  dom_cpupool_id :: int
  dom_vcpus :: nat
  dom_max_vcpus :: int
  dom_sched_info :: "'n gang_dom_info_t"

record (overloaded) ('n::len) hypervisor =
  domain_list :: "'n domain list"
  cpu_valid :: "int \<Rightarrow> 'n word"
  this_cpu :: nat
  caller_is_dom0 :: bool
  caller_in_cpupool0 :: bool
  max_domains :: nat

definition EPERM :: int where
  "EPERM = 1"

text \<open>
  Modelled from the spec: \<^verbatim>\<open>cpumask_weight\<close>, \<^verbatim>\<open>get_domain_by_id\<close> and
  \<^verbatim>\<open>for_each_domain_in_cpupool\<close> are Xen's.  The weight of a mask is the number of its
  CPUs; the domain with a given id is the first of the list with that id; the domains of
  a pool are visited in the order of the list.
\<close>

definition cpumask_weight :: "('n::len) word \<Rightarrow> nat" where
  "cpumask_weight m = length (filter (bit m) [0..<LENGTH('n)])"

definition get_domain_by_id :: "('n::len) hypervisor \<Rightarrow> domid_t \<Rightarrow> nat option" where
  "get_domain_by_id h d =
     find (\<lambda>i. domain_id (dom_sched_info (domain_list h ! i)) = d)
       [0..<length (domain_list h)]"

definition for_each_domain_in_cpupool :: "('n::len) hypervisor \<Rightarrow> int \<Rightarrow> nat list" where
  "for_each_domain_in_cpupool h pool =
     filter (\<lambda>i. dom_cpupool_id (domain_list h ! i) = pool) [0..<length (domain_list h)]"

subsection \<open>Copying and updating the domain infos\<close>

text \<open>
  \<^verbatim>\<open>__get_all_domain_infos\<close>.  An element of the array \<open>infos\<close> is a pair: the pointer
  \<^verbatim>\<open>infos[n].domain\<close> and the rest of the record.  The result is the filled part of the
  array and the number of domains of the pool.  The counter \<^verbatim>\<open>n\<close> is a \<^verbatim>\<open>uint16_t\<close>; it
  does not wrap, Xen's list holding fewer than \<open>2 ^ 16\<close> domains, whose ids are 16 bits
  wide.
\<close>

definition get_all_domain_infos ::
    "('n::len) hypervisor \<Rightarrow> nat \<Rightarrow> int \<Rightarrow> fault + ((nat \<times> 'n gang_dom_info_t) list \<times> nat)"
    where
  "get_all_domain_infos h len pool =
     (if max_domains h < len then Inl BUG
      else
        (let ds = for_each_domain_in_cpupool h pool
         in Inr (map (\<lambda>d. (d, (dom_sched_info (domain_list h ! d))
                                 \<lparr>cohort := - 1, muxgroup_mask := 0\<rparr>))
                   (take len ds),
                 length ds)))"

text \<open>
  \<^verbatim>\<open>__update_domain_infos\<close>.  The inner loop looks for the first info whose domain id equals
  the id of the entry, an \<^verbatim>\<open>int32_t\<close> compared with a \<^verbatim>\<open>domid_t\<close> after the promotion of
  both to \<^verbatim>\<open>int\<close>.  The result is the negative error code or the updated array.
\<close>

definition find_dom_info ::
    "('n::len) gang_sched_dom_conf_t \<Rightarrow> (nat \<times> 'n gang_dom_info_t) list \<Rightarrow> nat
       \<Rightarrow> nat option" where
  "find_dom_info dom_entry infos len =
     find (\<lambda>j. sint (dom_entry_domid dom_entry)
                  = uint (get_domid_from_dom_info (snd (infos ! j))))
       [0..<len]"

fun update_domain_infos_loop ::
    "(nat \<times> ('n::len) gang_dom_info_t) list \<Rightarrow> nat \<Rightarrow> 'n gang_sched_dom_conf_t list
       \<Rightarrow> int + (nat \<times> 'n gang_dom_info_t) list" where
  "update_domain_infos_loop infos len [] = Inr infos"
| "update_domain_infos_loop infos len (dom_entry # rest) =
     (case find_dom_info dom_entry infos len of
        None \<Rightarrow> Inl (- EINVAL)
      | Some j \<Rightarrow>
          update_domain_infos_loop
            (infos[j := (fst (infos ! j),
                         (snd (infos ! j))
                           \<lparr>cpumask := dom_entry_cpumap dom_entry,
                            tm_muxing_spec := dom_entry_gang_sched_policy dom_entry\<rparr>)])
            len rest)"

definition update_domain_infos ::
    "(nat \<times> ('n::len) gang_dom_info_t) list \<Rightarrow> nat \<Rightarrow> 'n xen_sysctl_gang_schedule_t
       \<Rightarrow> int + (nat \<times> 'n gang_dom_info_t) list" where
  "update_domain_infos infos len params =
     (if len < unat (num_dom_entries params) then Inl (- EINVAL)
      else update_domain_infos_loop infos len
             (take (unat (num_dom_entries params)) (dom_entries params)))"

subsection \<open>Sorting the pointer array\<close>

text \<open>
  \<^verbatim>\<open>__sort_domain_infos\<close>: the bubble sort of the array of pointers into \<open>infos\<close> (a pointer
  is an index of \<open>infos\<close>) by the numeric tag of the policy, which starts again from
  index 0 after every swap.  The C condition \<^verbatim>\<open>i != len - 1\<close> is evaluated in \<^verbatim>\<open>int\<close>.
\<close>

definition sort_key :: "(nat \<times> ('n::len) gang_dom_info_t) list \<Rightarrow> nat \<Rightarrow> nat" where
  "sort_key infos p = policy_type (tm_muxing_spec (snd (infos ! p)))"

definition sort_weight :: "(nat \<times> ('n::len) gang_dom_info_t) list \<Rightarrow> nat list \<Rightarrow> nat" where
  "sort_weight infos arr = (\<Sum>j<length arr. j * (5 - sort_key infos (arr ! j)))"

lemma policy_type_le_5: "policy_type p \<le> 5"
  by (cases p) simp_all

lemma sort_weight_swap:
  assumes i: "Suc i < length arr"
    and gt: "sort_key infos (arr ! Suc i) < sort_key infos (arr ! i)"
  shows "sort_weight infos (arr[i := arr ! Suc i, Suc i := arr ! i]) < sort_weight infos arr"
proof -
  let ?n = "length arr"
  let ?arr' = "arr[i := arr ! Suc i, Suc i := arr ! i]"
  let ?f = "\<lambda>j. j * (5 - sort_key infos (arr ! j))"
  let ?g = "\<lambda>j. j * (5 - sort_key infos (?arr' ! j))"
  let ?R = "{..<?n} - {i} - {Suc i}"
  define x where "x = 5 - sort_key infos (arr ! i)"
  define y where "y = 5 - sort_key infos (arr ! Suc i)"
  have "sort_key infos (arr ! i) \<le> 5"
    by (simp add: sort_key_def policy_type_le_5)
  with gt have xy: "x < y" unfolding x_def y_def by arith
  have fin: "finite {..<?n}" "finite ({..<?n} - {i})" by simp_all
  have mem: "i \<in> {..<?n}" "Suc i \<in> {..<?n} - {i}" using i by simp_all
  have f: "sum ?f {..<?n} = ?f i + (?f (Suc i) + sum ?f ?R)"
    by (simp only: sum.remove [OF fin(1) mem(1)] sum.remove [OF fin(2) mem(2)])
  have g: "sum ?g {..<?n} = ?g i + (?g (Suc i) + sum ?g ?R)"
    by (simp only: sum.remove [OF fin(1) mem(1)] sum.remove [OF fin(2) mem(2)])
  have r: "sum ?g ?R = sum ?f ?R"
    by (rule sum.cong) (auto simp: nth_list_update)
  have fi: "?f i = i * x" "?f (Suc i) = Suc i * y"
    by (simp_all add: x_def y_def)
  have gi: "?g i = i * y" "?g (Suc i) = Suc i * x"
    using i by (simp_all add: nth_list_update x_def y_def)
  have F: "sort_weight infos arr = i * x + (Suc i * y + sum ?f ?R)"
    unfolding sort_weight_def f fi ..
  have G: "sort_weight infos ?arr' = i * y + (Suc i * x + sum ?f ?R)"
    unfolding sort_weight_def length_list_update g gi r ..
  have "i * y + Suc i * x < i * x + Suc i * y"
    using xy by simp
  then show ?thesis unfolding F G by linarith
qed

function sort_domain_infos_loop ::
    "(nat \<times> ('n::len) gang_dom_info_t) list \<Rightarrow> nat list \<Rightarrow> nat \<Rightarrow> fault + nat list" where
  "sort_domain_infos_loop infos arr i =
     (if int i = int (length arr) - 1 then Inr arr
      else if length arr \<le> i + 1 then Inl OUT_OF_BOUNDS
      else if sort_key infos (arr ! (i + 1)) < sort_key infos (arr ! i)
      then sort_domain_infos_loop infos (arr[i := arr ! (i + 1), i + 1 := arr ! i]) 0
      else sort_domain_infos_loop infos arr (i + 1))"
  by pat_completeness auto
termination
  by (relation "measures [\<lambda>(infos, arr, i). sort_weight infos arr,
                           \<lambda>(infos, arr, i). length arr - i]")
     (auto simp: sort_weight_swap)

declare sort_domain_infos_loop.simps [simp del]

definition sort_domain_infos ::
    "(nat \<times> ('n::len) gang_dom_info_t) list \<Rightarrow> nat list \<Rightarrow> fault + nat list" where
  "sort_domain_infos infos arr = sort_domain_infos_loop infos arr 0"

text \<open>\<^verbatim>\<open>__validate_resource_allocation\<close> sorts and returns \<^verbatim>\<open>TRUE\<close> ("TODO: Implement!").\<close>

definition validate_resource_allocation ::
    "(nat \<times> ('n::len) gang_dom_info_t) list \<Rightarrow> nat list \<Rightarrow> fault + (bool \<times> nat list)" where
  "validate_resource_allocation infos arr =
     (case sort_domain_infos infos arr of
        Inl e \<Rightarrow> Inl e
      | Inr arr' \<Rightarrow> Inr (True, arr'))"

subsection \<open>Cohorts and mux groups of the new assignment\<close>

text \<open>
  \<^verbatim>\<open>__add_dom_to_muxgroups\<close>, one step of its loop over the CPUs of the domain.  The state
  is the domain info, the mask \<^verbatim>\<open>pending_cpus\<close>, the map \<^verbatim>\<open>__cpu_2_muxgroup\<close>, the array
  \<^verbatim>\<open>__muxgroups\<close> and the count \<^verbatim>\<open>*__num_of_muxgroups\<close>.  The arrays have \<^verbatim>\<open>NR_CPUS\<close>
  entries; an entry of the map that is not negative is the index of a mux group made
  before.  The assignments to the masks are made one after the other, as in the source.
\<close>

definition set_cpu_2_muxgroup :: "('n::len) word \<Rightarrow> nat \<Rightarrow> int list \<Rightarrow> int list" where
  "set_cpu_2_muxgroup m muxgroup_id c2m =
     map (\<lambda>c. if bit m c then int muxgroup_id else c2m ! c) [0..<length c2m]"

definition cpus_in_no_muxgroup :: "int list \<Rightarrow> ('n::len) word \<Rightarrow> 'n word" where
  "cpus_in_no_muxgroup c2m m =
     fold (\<lambda>i new. if c2m ! i < 0 then set_bit i new else new) [0..<LENGTH('n)] m"

definition add_dom_to_muxgroups_step ::
    "nat \<Rightarrow> ('n::len) gang_dom_info_t \<times> 'n word \<times> int list \<times> 'n word list \<times> nat
       \<Rightarrow> fault + ('n gang_dom_info_t \<times> 'n word \<times> int list \<times> 'n word list \<times> nat)" where
  "add_dom_to_muxgroups_step cpu_id st =
     (case st of (di, pending_cpus, c2m, mgs, num) \<Rightarrow>
        if \<not> cpumask_test_cpu cpu_id pending_cpus then Inr st
        else if 0 \<le> c2m ! cpu_id then
          (let muxgroup_id = nat (c2m ! cpu_id);
               pending' = pending_cpus AND NOT (mgs ! muxgroup_id)
           in if cpumask_subset (cpumask di) (mgs ! muxgroup_id)
              then Inr (di\<lparr>muxgroup_mask := set_bit muxgroup_id (muxgroup_mask di)\<rparr>,
                        pending', c2m, mgs, num)
              else if LENGTH('n) < num + 1 then Inl BUG
              else
                (let mgs1 = mgs[num := mgs ! muxgroup_id];
                     mgs2 = mgs1[num := mgs1 ! num AND cpumask di];
                     c2m' = set_cpu_2_muxgroup (mgs2 ! num) num c2m;
                     mgs3 = mgs2[muxgroup_id := mgs2 ! muxgroup_id AND NOT (cpumask di)]
                 in Inr (di\<lparr>muxgroup_mask := set_bit num (muxgroup_mask di)\<rparr>,
                         pending', c2m', mgs3, num + 1)))
        else if LENGTH('n) < num + 1 then Inl BUG
        else
          (let mgs1 = mgs[num := cpus_in_no_muxgroup c2m (mgs ! num)];
               mgs2 = mgs1[num := mgs1 ! num AND cpumask di];
               c2m' = set_cpu_2_muxgroup (mgs2 ! num) num c2m
           in Inr (di\<lparr>muxgroup_mask := set_bit num (muxgroup_mask di)\<rparr>,
                   pending_cpus AND NOT (mgs2 ! num), c2m', mgs2, num + 1)))"

fun add_dom_to_muxgroups_loop ::
    "nat list \<Rightarrow> ('n::len) gang_dom_info_t \<times> 'n word \<times> int list \<times> 'n word list \<times> nat
       \<Rightarrow> fault + ('n gang_dom_info_t \<times> 'n word \<times> int list \<times> 'n word list \<times> nat)" where
  "add_dom_to_muxgroups_loop [] st = Inr st"
| "add_dom_to_muxgroups_loop (cpu_id # rest) st =
     (case add_dom_to_muxgroups_step cpu_id st of
        Inl e \<Rightarrow> Inl e
      | Inr st' \<Rightarrow> add_dom_to_muxgroups_loop rest st')"

definition add_dom_to_muxgroups ::
    "('n::len) gang_dom_info_t \<Rightarrow> int list \<times> 'n word list \<times> nat
       \<Rightarrow> fault + ('n gang_dom_info_t \<times> int list \<times> 'n word list \<times> nat)" where
  "add_dom_to_muxgroups di mx =
     (case mx of (c2m, mgs, num) \<Rightarrow>
        (case add_dom_to_muxgroups_loop (filter (bit (cpumask di)) [0..<LENGTH('n)])
                (di, cpumask di, c2m, mgs, num) of
           Inl e \<Rightarrow> Inl e
         | Inr (di', pending_cpus, c2m', mgs', num') \<Rightarrow> Inr (di', c2m', mgs', num')))"

text \<open>
  \<^verbatim>\<open>__populate_cohorts_and_muxgroups\<close>.  The first loop passes every domain of the pointer
  array to \<^verbatim>\<open>__add_dom_to_muxgroups\<close> and to \<^verbatim>\<open>__update_cohorts\<close>; after the four \<^verbatim>\<open>BUG_ON\<close>s
  the second gives every domain its cohort.  The arrays start as the allocation leaves
  them, cleared, and the map to mux groups at -1.  The function also fills the map
  \<^verbatim>\<open>__cpu_2_cohort\<close> and the counts \<^verbatim>\<open>__be_doms_in_cohort\<close>, which no domain info depends on
  and which are left out; the result here is the array of domain infos.
\<close>

fun populate_loop ::
    "nat list \<Rightarrow> (nat \<times> ('n::len) gang_dom_info_t) list \<Rightarrow> int list \<times> 'n word list \<times> nat
       \<Rightarrow> 'n word list \<Rightarrow> nat
       \<Rightarrow> fault + ((nat \<times> 'n gang_dom_info_t) list \<times> (int list \<times> 'n word list \<times> nat)
                    \<times> 'n word list \<times> nat)" where
  "populate_loop [] infos mx cs num = Inr (infos, mx, cs, num)"
| "populate_loop (p # ps) infos mx cs num =
     (case add_dom_to_muxgroups (snd (infos ! p)) mx of
        Inl e \<Rightarrow> Inl e
      | Inr (di, mx') \<Rightarrow>
          (case update_cohorts di cs num of
             Inl e \<Rightarrow> Inl e
           | Inr (cs', num') \<Rightarrow>
               populate_loop ps (infos[p := (fst (infos ! p), di)]) mx' cs' num'))"

fun set_cohort_loop ::
    "nat list \<Rightarrow> (nat \<times> ('n::len) gang_dom_info_t) list \<Rightarrow> 'n word list \<Rightarrow> nat
       \<Rightarrow> fault + (nat \<times> 'n gang_dom_info_t) list" where
  "set_cohort_loop [] infos cs num = Inr infos"
| "set_cohort_loop (p # ps) infos cs num =
     (case set_cohort_in_domain (snd (infos ! p)) cs num of
        Inl e \<Rightarrow> Inl e
      | Inr di \<Rightarrow> set_cohort_loop ps (infos[p := (fst (infos ! p), di)]) cs num)"

definition populate_cohorts_and_muxgroups ::
    "nat list \<Rightarrow> (nat \<times> ('n::len) gang_dom_info_t) list
       \<Rightarrow> fault + (nat \<times> 'n gang_dom_info_t) list" where
  "populate_cohorts_and_muxgroups arr infos =
     (case populate_loop arr infos
             (replicate LENGTH('n) (- 1), replicate LENGTH('n) 0, 0)
             (replicate LENGTH('n) 0) 0 of
        Inl e \<Rightarrow> Inl e
      | Inr (infos', (c2m, mgs, num_mg), cs, num_co) \<Rightarrow>
          if num_mg = 0 then Inl BUG
          else if LENGTH('n) < num_mg then Inl BUG
          else if num_co = 0 then Inl BUG
          else if LENGTH('n) < num_co then Inl BUG
          else set_cohort_loop arr infos' cs num_co)"

text \<open>
  The part of a domain info that the computation of cohorts and mux groups leaves as it
  is: the domain, its CPU mask and its policy.
\<close>

definition core :: "nat \<times> ('n::len) gang_dom_info_t
                      \<Rightarrow> nat \<times> domid_t \<times> 'n word \<times> gang_sched_policy_t" where
  "core pdi = (fst pdi, domain_id (snd pdi), cpumask (snd pdi), tm_muxing_spec (snd pdi))"

definition core_eq :: "('n::len) gang_dom_info_t \<Rightarrow> 'n gang_dom_info_t \<Rightarrow> bool" where
  "core_eq a b \<longleftrightarrow> domain_id a = domain_id b \<and> cpumask a = cpumask b
                    \<and> tm_muxing_spec a = tm_muxing_spec b"

subsection \<open>Writing the domain infos back\<close>

text \<open>
  \<^verbatim>\<open>__smp_adjust_and_pause\<close> makes every CPU of the pool run
  \<^verbatim>\<open>__adjust_and_pause_this_cpu\<close>, and in it \<^verbatim>\<open>__update_local_sched_v0\<close>.  There the
  designated CPU, for every domain of the pointer array, copies the CPU mask, the policy,
  the cohort and the mux group mask of the new info into the private scheduling info of
  the domain.  \<open>update_local_sched_v0_dom_infos\<close> is this loop of the designated CPU, run
  to its end.  The rest of the adjustment works on the topology arrays, on the placement
  of the VCPUs and on the tickets of the local schedulers; the barriers and the waiting
  loops with their timeouts order it in time.
\<close>

definition write_dom_info ::
    "nat \<times> ('n::len) gang_dom_info_t \<Rightarrow> 'n domain list \<Rightarrow> 'n domain list" where
  "write_dom_info pdi ds =
     (case pdi of (d, di) \<Rightarrow>
        ds[d := (ds ! d)\<lparr>dom_sched_info :=
                   (dom_sched_info (ds ! d))
                     \<lparr>cpumask := cpumask di,
                      tm_muxing_spec := tm_muxing_spec di,
                      cohort := cohort di,
                      muxgroup_mask := muxgroup_mask di\<rparr>\<rparr>])"

definition update_local_sched_v0_dom_infos ::
    "nat list \<Rightarrow> (nat \<times> ('n::len) gang_dom_info_t) list \<Rightarrow> 'n hypervisor \<Rightarrow> 'n hypervisor"
    where
  "update_local_sched_v0_dom_infos arr infos h =
     h\<lparr>domain_list := fold (\<lambda>p. write_dom_info (infos ! p)) arr (domain_list h)\<rparr>"

subsection \<open>\<^verbatim>\<open>gang_adjust_global\<close>\<close>

text \<open>
  The checks of one entry of a \<^verbatim>\<open>putinfo\<close> request, each of which ends the call with
  \<open>- EINVAL\<close>; \<open>pool\<close> is \<^verbatim>\<open>op->cpupool_id\<close> and \<open>us\<close> the boot parameter
  \<^verbatim>\<open>sched_ratelimit_us\<close>.
\<close>

definition validate_dom_entry ::
    "32 word \<Rightarrow> ('n::len) hypervisor \<Rightarrow> int \<Rightarrow> 'n gang_sched_dom_conf_t \<Rightarrow> bool" where
  "validate_dom_entry us h pool dom_entry =
     (if sint (dom_entry_domid dom_entry) \<le> 0 then False
      else
        (case get_domain_by_id h (ucast (dom_entry_domid dom_entry)) of
           None \<Rightarrow> False
         | Some d \<Rightarrow>
             (let dom = domain_list h ! d;
                  vcpu_count = int (dom_vcpus dom);
                  cpus_in_pool = int (cpumask_weight (cpu_valid h (dom_cpupool_id dom)));
                  dom_cpumap = dom_entry_cpumap dom_entry;
                  dom_sched_pol = dom_entry_gang_sched_policy dom_entry
              in if dom_cpupool_id dom \<noteq> pool then False
                 else if cpus_in_pool < vcpu_count then False
                 else if cpus_in_pool < dom_max_vcpus dom then False
                 else if vcpu_count \<noteq> dom_max_vcpus dom then False
                 else if \<not> cpumask_subset dom_cpumap (cpu_valid h (dom_cpupool_id dom))
                 then False
                 else if vcpu_count \<noteq> int (cpumask_weight dom_cpumap) then False
                 else if \<not> VALIDATE_GANG_SCHED_POLICY_TYPE dom_sched_pol then False
                 else validate_gang_sched_policy us dom_sched_pol)))"

fun duplicate_domids :: "32 word list \<Rightarrow> bool" where
  "duplicate_domids [] = False"
| "duplicate_domids (d # ds) = (d \<in> set ds \<or> duplicate_domids ds)"

text \<open>
  The command \<^verbatim>\<open>XEN_SYSCTL_SCHEDOP_putinfo\<close>: the return code and the hypervisor after
  the call.  Memory allocations are taken to succeed.  The counter \<^verbatim>\<open>exec_count\<close> never
  stops a call (\<^verbatim>\<open>atomic_inc_and_test\<close> gives 0 or 1, which is compared with \<^verbatim>\<open>> 1\<close>) and
  is left out, as is the unpausing of the domains after the adjustment.
\<close>

definition putinfo ::
    "32 word \<Rightarrow> ('n::len) hypervisor \<Rightarrow> int \<Rightarrow> 'n xen_sysctl_gang_schedule_t
       \<Rightarrow> fault + (int \<times> 'n hypervisor)" where
  "putinfo us h pool params =
     (if \<not> caller_is_dom0 h then Inr (- EPERM, h)
      else if \<not> caller_in_cpupool0 h then Inr (- EPERM, h)
      else if unat (num_dom_entries params) < 1
              \<or> max_domains h < unat (num_dom_entries params) then Inr (- EINVAL, h)
      else if length (dom_entries params) < unat (num_dom_entries params)
      then Inl OUT_OF_BOUNDS
      else
        (let es = take (unat (num_dom_entries params)) (dom_entries params)
         in if duplicate_domids (map dom_entry_domid es) then Inr (- EINVAL, h)
            else if \<not> list_all (validate_dom_entry us h pool) es then Inr (- EINVAL, h)
            else if cpumask_test_cpu (this_cpu h) (cpu_valid h pool) then Inl BUG
            else
              (case get_all_domain_infos h (max_domains h) pool of
                 Inl e \<Rightarrow> Inl e
               | Inr (dom_infos, dom_count) \<Rightarrow>
                   if dom_count = 0 then Inl BUG
                   else if max_domains h < dom_count then Inl BUG
                   else
                     (case update_domain_infos dom_infos dom_count params of
                        Inl err \<Rightarrow> Inl BUG
                      | Inr dom_infos1 \<Rightarrow>
                          (case validate_resource_allocation dom_infos1 [0..<dom_count] of
                             Inl e \<Rightarrow> Inl e
                           | Inr (valid, di_parr) \<Rightarrow>
                               if \<not> valid then Inr (- EINVAL, h)
                               else
                                 (case populate_cohorts_and_muxgroups di_parr dom_infos1 of
                                    Inl e \<Rightarrow> Inl e
                                  | Inr dom_infos2 \<Rightarrow>
                                      Inr (0, update_local_sched_v0_dom_infos di_parr
                                                dom_infos2 h)))))))"

text \<open>
  The command \<^verbatim>\<open>XEN_SYSCTL_SCHEDOP_getinfo\<close>: the return code and the structure \<open>params\<close>
  after the call.  Entry \<open>c\<close> of the array is written for every domain of the pool; the
  entries behind stay as the caller passed them.
\<close>

definition dom_entry_of :: "('n::len) gang_dom_info_t \<Rightarrow> 'n gang_sched_dom_conf_t" where
  "dom_entry_of di =
     \<lparr>dom_entry_domid = ucast (get_domid_from_dom_info di),
      dom_entry_cpumap = cpumask di,
      dom_entry_gang_sched_policy = tm_muxing_spec di\<rparr>"

definition getinfo ::
    "('n::len) hypervisor \<Rightarrow> int \<Rightarrow> 'n xen_sysctl_gang_schedule_t
       \<Rightarrow> fault + (int \<times> 'n xen_sysctl_gang_schedule_t)" where
  "getinfo h pool params =
     (if \<not> caller_is_dom0 h then Inr (- EPERM, params)
      else if \<not> caller_in_cpupool0 h then Inr (- EPERM, params)
      else if cpumask_test_cpu (this_cpu h) (cpu_valid h pool) then Inl BUG
      else
        (case get_all_domain_infos h (max_domains h) pool of
           Inl e \<Rightarrow> Inl e
         | Inr (dom_infos, dom_count) \<Rightarrow>
             if max_domains h < dom_count then Inl BUG
             else if length (dom_entries params) < dom_count then Inl OUT_OF_BOUNDS
             else Inr (0, params\<lparr>num_dom_entries := of_nat dom_count,
                                 dom_entries := map (\<lambda>pdi. dom_entry_of (snd pdi)) dom_infos
                                                  @ drop dom_count (dom_entries params)\<rparr>)))"

section \<open>Example configurations\<close>

subsection \<open>A local scheduler to run the decision on\<close>

text \<open>
  Four CPUs, a grain of 1000 us, and two time-triggered domains that share CPU 1: domain 1
  on CPUs 0 and 1, domain 2 on CPUs 1 and 2, each active for 50 ms in every 100 ms.  The
  local scheduler is that of CPU 0, where domain 1 has a VCPU and domain 2 has none; the
  ticket of domain 1 is at address 1, that of domain 2 at address 2, and both wait in the
  activation queue for time \<open>est\<close>.
\<close>

definition ex_globals :: "4 gang_globals" where
  "ex_globals =
     \<lparr>sched_ratelimit_us = 1000, period_4_be_doms = 100000000, quantum_4_be_doms = 10000000,
      cohorts = [7, 0, 0, 0], be_doms_in_cohort = [0, 0, 0, 0],
      num_of_cohorts = 1, num_of_muxgroups = 3,
      idle_vcpu = (\<lambda>c. \<lparr>vcpu_id = int c, is_idle_vcpu = True, sched_priv = None\<rparr>)\<rparr>"

definition ex_dom_info :: "domid_t \<Rightarrow> 4 word \<Rightarrow> 4 gang_dom_info_t" where
  "ex_dom_info d m =
     \<lparr>domain_id = d, cpumask = m,
      tm_muxing_spec = GANG_TIME_TRIG_MUXING
        \<lparr>tt_from = 0, tt_period = 100000000, tt_active_time = 50000000,
         tt_space_filling = 0\<rparr>,
      cohort = 0, muxgroup_mask = m\<rparr>"

definition ex_ticket ::
    "4 gang_dom_info_t \<Rightarrow> vcpu option \<Rightarrow> s_time_t \<Rightarrow> 4 sched_ticket_t" where
  "ex_ticket di v est =
     \<lparr>vcpu = v, dom_info = di, earliest_start_time = est, deadline = est + 100000000,
      remaining_time = 50000000, activated_at = INFINITY, flags = 0, on_my_behalf = None\<rparr>"

definition ex_vcpu :: vcpu where
  "ex_vcpu = \<lparr>vcpu_id = 0, is_idle_vcpu = False, sched_priv = Some 1\<rparr>"

definition ex_sched :: "s_time_t \<Rightarrow> 4 sched_info_t" where
  "ex_sched est =
     \<lparr>ticket_mem = (\<lambda>p. if p = 1 then ex_ticket (ex_dom_info 1 3) (Some ex_vcpu) est
                         else ex_ticket (ex_dom_info 2 6) None est),
      edf_runnable_Q = [], activation_Q = [1, 2],
      tickets_waiting_4_event = Some Map.empty, cur_ticket_per_cpu = (\<lambda>_. None)\<rparr>"

text \<open>
  The variables of the selection loop after domain 1 has been selected at time 1 ms:
  its ticket is current on CPUs 0 and 1, and the ticket of domain 2 heads the runnable
  queue.
\<close>

definition ex_vars :: "4 do_schedule_vars" where
  "ex_vars =
     \<lparr>sched = (ex_sched 0)
        \<lparr>ticket_mem := (ticket_mem (ex_sched 0))
           (1 := (ticket_mem (ex_sched 0) 1)\<lparr>activated_at := 1000000\<rparr>),
         edf_runnable_Q := [2], activation_Q := [],
         cur_ticket_per_cpu := (\<lambda>c. if c < 2 then Some 1 else None)\<rparr>,
      assigned_cpus = 3, end_of_time_slice = 51000000, num_of_runnable_domains = 1,
      non_muxed_domain_present = False\<rparr>"

subsection \<open>A pool to adjust\<close>

text \<open>
  Four CPUs and a limit of four domains.  Pool 1 has CPUs 0 to 2 and two configured
  time-triggered domains: domain 1 with two VCPUs on CPUs 0 and 1, domain 2 with one VCPU
  on CPU 2.  Domain 0 is the caller, on CPU 3 in pool 0.  The request \<open>ex_put\<close> names
  domain 2 only and makes it a best-effort domain on CPU 2; \<open>ex_get\<close> is the structure that
  a \<^verbatim>\<open>getinfo\<close> call fills.
\<close>

definition ex_hypervisor :: "4 hypervisor" where
  "ex_hypervisor =
     \<lparr>domain_list =
        [\<lparr>dom_cpupool_id = 0, dom_vcpus = 1, dom_max_vcpus = 1,
          dom_sched_info = ex_dom_info 0 8\<rparr>,
         \<lparr>dom_cpupool_id = 1, dom_vcpus = 2, dom_max_vcpus = 2,
          dom_sched_info = ex_dom_info 1 3\<rparr>,
         \<lparr>dom_cpupool_id = 1, dom_vcpus = 1, dom_max_vcpus = 1,
          dom_sched_info = ex_dom_info 2 4\<rparr>],
      cpu_valid = (\<lambda>pool. if pool = 1 then 7 else 8),
      this_cpu = 3, caller_is_dom0 = True, caller_in_cpupool0 = True, max_domains = 4\<rparr>"

definition ex_no_entry :: "4 gang_sched_dom_conf_t" where
  "ex_no_entry =
     \<lparr>dom_entry_domid = - 1, dom_entry_cpumap = 0,
      dom_entry_gang_sched_policy = GANG_SCHED_POLICY_NOT_SET\<rparr>"

definition ex_new_entry :: "4 gang_sched_dom_conf_t" where
  "ex_new_entry =
     \<lparr>dom_entry_domid = 2, dom_entry_cpumap = 4,
      dom_entry_gang_sched_policy =
        GANG_BEST_EFFORT_MUXING \<lparr>be_from = 0, be_weight = 1, be_space_filling = 0\<rparr>\<rparr>"

definition ex_put :: "4 xen_sysctl_gang_schedule_t" where
  "ex_put =
     \<lparr>num_dom_entries = 1,
      dom_entries = [ex_new_entry, ex_no_entry, ex_no_entry, ex_no_entry]\<rparr>"

definition ex_get :: "4 xen_sysctl_gang_schedule_t" where
  "ex_get =
     \<lparr>num_dom_entries = 0,
      dom_entries = [ex_no_entry, ex_no_entry, ex_no_entry, ex_no_entry]\<rparr>"

section \<open>Facts about 64-bit time values\<close>

lemma sint_GRAIN_IN_US: "sint (GANG_FINEST_TIME_GRAIN_IN_US us) = sint us"
  unfolding GANG_FINEST_TIME_GRAIN_IN_US_def
  by (simp add: sint_up_scast is_up)

lemma uint_nonneg_sint64:
  fixes w :: "64 word"
  assumes "0 \<le> sint w"
  shows "uint w = sint w"
proof -
  have "sint w < 2 ^ 63" using sint_lt [of w] by simp
  then have "take_bit 64 (sint w) = sint w"
    using assms by (simp add: take_bit_int_eq_self)
  then show ?thesis using uint_sint [of w] by simp
qed

lemma unsigned_less_signed64:
  fixes a b :: "64 word"
  assumes "a < b" "0 \<le> sint a" "0 \<le> sint b"
  shows "sint a < sint b"
  using assms by (simp add: word_less_def uint_nonneg_sint64)

lemma sint_GRAIN:
  assumes "0 \<le>s GANG_FINEST_TIME_GRAIN_IN_US us"
  shows "sint (GANG_FINEST_TIME_GRAIN us) = sint us * 1000"
proof -
  have a: "0 \<le> sint us" using assms by (simp add: word_sle_eq sint_GRAIN_IN_US)
  have b: "sint us < 2 ^ 31" using sint_lt [of us] by simp
  have "sint (GANG_FINEST_TIME_GRAIN us) = signed_take_bit 63 (sint us * 1000)"
    by (simp add: GANG_FINEST_TIME_GRAIN_def us_2_ns_def sint_word_mult sint_GRAIN_IN_US)
  also have "\<dots> = sint us * 1000"
    using a b by (simp add: signed_take_bit_int_eq_self)
  finally show ?thesis .
qed

text \<open>
  The chain of checks shared by the two hypervisor validators, on the raw field values:
  an unsigned \<open>period < active_time\<close> trips one of the signed checks, and
  \<open>active_time = period - grain\<close> passes the last one.
\<close>

lemma unsigned_greater_rejected:
  fixes period active_time :: "64 word"
  assumes us: "0 \<le>s GANG_FINEST_TIME_GRAIN_IN_US us" and lt: "period < active_time"
  shows "period <s GANG_FINEST_TIME_GRAIN_IN_US us
       \<or> active_time <s GANG_FINEST_TIME_GRAIN_IN_US us
       \<or> period <s active_time"
proof (cases "0 \<le> sint period \<and> 0 \<le> sint active_time")
  case True
  then show ?thesis using lt by (simp add: word_sless_alt unsigned_less_signed64)
next
  case False
  then show ?thesis using us by (auto simp: word_sless_alt word_sle_eq)
qed

lemma minus_grain_not_greater:
  fixes period active_time :: "64 word"
  assumes us: "0 \<le>s GANG_FINEST_TIME_GRAIN_IN_US us"
    and p: "\<not> period <s GANG_FINEST_TIME_GRAIN_IN_US us"
    and eq: "active_time = period - GANG_FINEST_TIME_GRAIN us"
  shows "\<not> period <s active_time"
proof -
  have g: "sint (GANG_FINEST_TIME_GRAIN us) = sint us * 1000" by (rule sint_GRAIN [OF us])
  have u0: "0 \<le> sint us" "sint us < 2 ^ 31"
    using us sint_lt [of us] by (simp_all add: word_sle_eq sint_GRAIN_IN_US)
  have p0: "0 \<le> sint period" "sint period < 2 ^ 63"
    using p u0 sint_lt [of period] by (simp_all add: word_sless_alt sint_GRAIN_IN_US)
  have "sint active_time = signed_take_bit 63 (sint period - sint us * 1000)"
    by (simp add: eq sint_word_diff g)
  also have "\<dots> = sint period - sint us * 1000"
    using u0 p0 by (simp add: signed_take_bit_int_eq_self)
  finally have "sint active_time \<le> sint period" using u0 by simp
  then show ?thesis by (simp add: word_sless_alt)
qed

section \<open>Policy validation: the boundaries\<close>

text \<open>
  Claim C4, as stated, fails on the hypervisor's validator: a time-triggered record with
  \<open>active_time = period\<close> passes \<^verbatim>\<open>__validate_tt_muxing_params\<close>, whose last check is
  \<^verbatim>\<open>period < active_time\<close> (the header says of the time-triggered \<^verbatim>\<open>active_time\<close>:
  "Must be <= 'every'").  Here the grain is 1000 us and both values are 2 ms.
\<close>

theorem validate_tt_accepts_active_eq_period:
  "tt_active_time \<lparr>tt_from = 0, tt_period = 2000000, tt_active_time = 2000000,
                    tt_space_filling = 0\<rparr>
     \<ge> tt_period \<lparr>tt_from = 0, tt_period = 2000000, tt_active_time = 2000000,
                    tt_space_filling = 0\<rparr>
   \<and> validate_tt_muxing_params 1000
       \<lparr>tt_from = 0, tt_period = 2000000, tt_active_time = 2000000, tt_space_filling = 0\<rparr>"
  by (simp add: validate_tt_muxing_params_def GANG_FINEST_TIME_GRAIN_IN_US_def INFINITY_def)

text \<open>
  Claim C4, amended.  With a non-negative \<^verbatim>\<open>sched_ratelimit_us\<close>: the hypervisor rejects
  every time-triggered and every event-triggered record whose \<open>active_time\<close> is greater than
  its \<open>period\<close> (as unsigned 64-bit values); it accepts a time-triggered record with
  \<open>active_time = period\<close> whose period lies between the grain (in microseconds, as the
  code compares it) and \<open>INFINITY\<close>; and it accepts a time-triggered or event-triggered
  record with \<open>active_time = period - one grain\<close> when period and active time each pass
  the range checks.  The control tool's validator rejects \<open>active_time \<ge> period\<close> for both
  policies.
\<close>

theorem validate_tt_et_boundary:
  assumes us: "0 \<le>s GANG_FINEST_TIME_GRAIN_IN_US us"
  shows "(tt_period p < tt_active_time p \<longrightarrow> \<not> validate_tt_muxing_params us p)
       \<and> (et_period q < et_active_time q \<longrightarrow> \<not> validate_et_muxing_params us q)
       \<and> (\<not> tt_period p <s GANG_FINEST_TIME_GRAIN_IN_US us \<and> \<not> INFINITY \<le>s tt_period p
            \<and> tt_active_time p = tt_period p
            \<longrightarrow> validate_tt_muxing_params us p)
       \<and> (\<not> tt_period p <s GANG_FINEST_TIME_GRAIN_IN_US us \<and> \<not> INFINITY \<le>s tt_period p
            \<and> \<not> tt_active_time p <s GANG_FINEST_TIME_GRAIN_IN_US us
            \<and> \<not> INFINITY \<le>s tt_active_time p
            \<and> tt_active_time p = tt_period p - GANG_FINEST_TIME_GRAIN us
            \<longrightarrow> validate_tt_muxing_params us p)
       \<and> (\<not> et_period q <s GANG_FINEST_TIME_GRAIN_IN_US us \<and> \<not> INFINITY \<le>s et_period q
            \<and> \<not> et_active_time q <s GANG_FINEST_TIME_GRAIN_IN_US us
            \<and> \<not> INFINITY \<le>s et_active_time q
            \<and> et_active_time q = et_period q - GANG_FINEST_TIME_GRAIN us
            \<longrightarrow> validate_et_muxing_params us q)
       \<and> (tt_period p \<le> tt_active_time p \<longrightarrow> \<not> validate_muxing_policy (GANG_TIME_TRIG_MUXING p))
       \<and> (et_period q \<le> et_active_time q \<longrightarrow> \<not> validate_muxing_policy (GANG_EVENT_TRIG_MUXING q))"
proof (intro conjI impI)
  assume "tt_period p < tt_active_time p"
  from unsigned_greater_rejected [OF us this]
  show "\<not> validate_tt_muxing_params us p"
    by (auto simp: validate_tt_muxing_params_def Let_def)
next
  assume "et_period q < et_active_time q"
  from unsigned_greater_rejected [OF us this]
  show "\<not> validate_et_muxing_params us q"
    by (auto simp: validate_et_muxing_params_def Let_def)
next
  assume "\<not> tt_period p <s GANG_FINEST_TIME_GRAIN_IN_US us \<and> \<not> INFINITY \<le>s tt_period p
            \<and> tt_active_time p = tt_period p"
  then show "validate_tt_muxing_params us p"
    by (simp add: validate_tt_muxing_params_def Let_def)
next
  assume a: "\<not> tt_period p <s GANG_FINEST_TIME_GRAIN_IN_US us \<and> \<not> INFINITY \<le>s tt_period p
            \<and> \<not> tt_active_time p <s GANG_FINEST_TIME_GRAIN_IN_US us
            \<and> \<not> INFINITY \<le>s tt_active_time p
            \<and> tt_active_time p = tt_period p - GANG_FINEST_TIME_GRAIN us"
  then have "\<not> tt_period p <s tt_active_time p"
    using minus_grain_not_greater [OF us, of "tt_period p" "tt_active_time p"] by blast
  moreover have "\<not> tt_period p <s GANG_FINEST_TIME_GRAIN_IN_US us" "\<not> INFINITY \<le>s tt_period p"
    "\<not> tt_active_time p <s GANG_FINEST_TIME_GRAIN_IN_US us" "\<not> INFINITY \<le>s tt_active_time p"
    using a by blast+
  ultimately show "validate_tt_muxing_params us p"
    by (simp add: validate_tt_muxing_params_def Let_def)
next
  assume a: "\<not> et_period q <s GANG_FINEST_TIME_GRAIN_IN_US us \<and> \<not> INFINITY \<le>s et_period q
            \<and> \<not> et_active_time q <s GANG_FINEST_TIME_GRAIN_IN_US us
            \<and> \<not> INFINITY \<le>s et_active_time q
            \<and> et_active_time q = et_period q - GANG_FINEST_TIME_GRAIN us"
  then have "\<not> et_period q <s et_active_time q"
    using minus_grain_not_greater [OF us, of "et_period q" "et_active_time q"] by blast
  moreover have "\<not> et_period q <s GANG_FINEST_TIME_GRAIN_IN_US us" "\<not> INFINITY \<le>s et_period q"
    "\<not> et_active_time q <s GANG_FINEST_TIME_GRAIN_IN_US us" "\<not> INFINITY \<le>s et_active_time q"
    using a by blast+
  ultimately show "validate_et_muxing_params us q"
    by (simp add: validate_et_muxing_params_def Let_def)
next
  assume "tt_period p \<le> tt_active_time p"
  then show "\<not> validate_muxing_policy (GANG_TIME_TRIG_MUXING p)" by simp
next
  assume "et_period q \<le> et_active_time q"
  then show "\<not> validate_muxing_policy (GANG_EVENT_TRIG_MUXING q)" by simp
qed

text \<open>
  The theorem at a grain of 1000 us: a 3 ms active time in a 2 ms period is rejected, and
  a 1 ms active time (one grain less than the period) is accepted, for both policies.
\<close>

theorem validate_tt_et_boundary_witness:
  "0 \<le>s GANG_FINEST_TIME_GRAIN_IN_US 1000
   \<and> \<not> validate_tt_muxing_params 1000
        \<lparr>tt_from = 0, tt_period = 2000000, tt_active_time = 3000000, tt_space_filling = 0\<rparr>
   \<and> \<not> validate_et_muxing_params 1000
        \<lparr>et_from = 0, et_period = 2000000, et_active_time = 3000000, et_space_filling = 0\<rparr>
   \<and> validate_tt_muxing_params 1000
        \<lparr>tt_from = 0, tt_period = 2000000, tt_active_time = 1000000, tt_space_filling = 0\<rparr>
   \<and> validate_et_muxing_params 1000
        \<lparr>et_from = 0, et_period = 2000000, et_active_time = 1000000, et_space_filling = 0\<rparr>"
proof -
  have us: "0 \<le>s GANG_FINEST_TIME_GRAIN_IN_US 1000"
    by (simp add: GANG_FINEST_TIME_GRAIN_IN_US_def word_sle_eq)
  have g: "GANG_FINEST_TIME_GRAIN 1000 = 1000000"
    by (simp add: GANG_FINEST_TIME_GRAIN_def GANG_FINEST_TIME_GRAIN_IN_US_def us_2_ns_def)
  have i: "GANG_FINEST_TIME_GRAIN_IN_US 1000 = 1000"
    by (simp add: GANG_FINEST_TIME_GRAIN_IN_US_def)
  show ?thesis
    using us
      validate_tt_et_boundary [OF us,
        of "\<lparr>tt_from = 0, tt_period = 2000000, tt_active_time = 3000000, tt_space_filling = 0\<rparr>"
           "\<lparr>et_from = 0, et_period = 2000000, et_active_time = 3000000, et_space_filling = 0\<rparr>"]
      validate_tt_et_boundary [OF us,
        of "\<lparr>tt_from = 0, tt_period = 2000000, tt_active_time = 1000000, tt_space_filling = 0\<rparr>"
           "\<lparr>et_from = 0, et_period = 2000000, et_active_time = 1000000, et_space_filling = 0\<rparr>"]
    by (simp add: g i INFINITY_def)
qed

text \<open>
  Claim C5, as stated, fails on the hypervisor's validator: \<^verbatim>\<open>__validate_be_muxing_params\<close>
  has nothing to validate and accepts a best-effort record with \<open>weight = 0\<close>.
\<close>

theorem validate_be_accepts_weight_zero:
  "be_weight \<lparr>be_from = 0, be_weight = 0, be_space_filling = 0\<rparr> = 0
   \<and> validate_gang_sched_policy 1000
       (GANG_BEST_EFFORT_MUXING \<lparr>be_from = 0, be_weight = 0, be_space_filling = 0\<rparr>)"
  by (simp add: validate_be_muxing_params_def)

text \<open>
  Claim C5, amended.  The control tool's validator rejects a best-effort record with
  \<open>weight = 0\<close> and accepts one with \<open>weight = 1\<close> whose \<open>from\<close> is not the tool's \<open>INFINITY\<close>;
  the hypervisor's validator accepts every best-effort record.
\<close>

theorem validate_be_weight_boundary:
  "(be_weight p = 0 \<longrightarrow> \<not> validate_muxing_policy (GANG_BEST_EFFORT_MUXING p))
   \<and> (be_weight p = 1 \<and> be_from p \<noteq> TOOL_INFINITY
        \<longrightarrow> validate_muxing_policy (GANG_BEST_EFFORT_MUXING p))
   \<and> validate_gang_sched_policy us (GANG_BEST_EFFORT_MUXING p)"
  by (simp add: validate_be_muxing_params_def)

theorem validate_be_weight_boundary_witness:
  "\<not> validate_muxing_policy
       (GANG_BEST_EFFORT_MUXING \<lparr>be_from = 0, be_weight = 0, be_space_filling = 0\<rparr>)
   \<and> validate_muxing_policy
       (GANG_BEST_EFFORT_MUXING \<lparr>be_from = 0, be_weight = 1, be_space_filling = 0\<rparr>)"
  using validate_be_weight_boundary [of "\<lparr>be_from = 0, be_weight = 0, be_space_filling = 0\<rparr>"]
        validate_be_weight_boundary [of "\<lparr>be_from = 0, be_weight = 1, be_space_filling = 0\<rparr>"]
  by (simp add: TOOL_INFINITY_def)

section \<open>Freeing per-CPU data\<close>

text \<open>
  Claim C10: \<^verbatim>\<open>gang_free_pdata\<close> on a record produced by \<^verbatim>\<open>gang_alloc_pdata\<close>.  The
  allocation stores a non-null local scheduler; in a build with assertions the free then
  stops at \<^verbatim>\<open>ASSERT(pci->local_sched == NULL)\<close>.  No record passes both that assertion and
  the \<^verbatim>\<open>BUG_ON(s == NULL)\<close> of \<^verbatim>\<open>__deinit_sched_info\<close>: with a null local scheduler the
  free stops at the \<^verbatim>\<open>BUG_ON\<close>.
\<close>

theorem gang_free_pdata_after_alloc_faults:
  "gang_alloc_pdata mem True True True \<lparr>vcpu_id = 0, is_idle_vcpu = True, sched_priv = None\<rparr>
     = Inr (Some \<lparr>local_sched = Some ((xzalloc_sched_info mem)
                     \<lparr>tickets_waiting_4_event := Some Map.empty\<rparr>)\<rparr>)
   \<and> gang_free_pdata True
       (Some \<lparr>local_sched = Some ((xzalloc_sched_info mem)
                     \<lparr>tickets_waiting_4_event := Some Map.empty\<rparr>)\<rparr>)
     = Inl ASSERT_FAILED
   \<and> gang_free_pdata True (Some \<lparr>local_sched = None\<rparr>) = Inl BUG"
  by (simp add: gang_alloc_pdata_def init_sched_info_def create_waiting_4_event_set_def
      xzalloc_sched_info_def gang_free_pdata_def deinit_sched_info_def)

text \<open>The same on a four-CPU machine whose ticket memory holds blank tickets.\<close>

theorem gang_free_pdata_after_alloc_faults_witness:
  "gang_free_pdata True
     (Some \<lparr>local_sched = Some ((xzalloc_sched_info
        (\<lambda>_. \<lparr>vcpu = None,
               dom_info = \<lparr>domain_id = 1, cpumask = (1 :: 4 word),
                           tm_muxing_spec = GANG_SCHED_POLICY_NOT_SET, cohort = - 1,
                           muxgroup_mask = 0\<rparr>,
               earliest_start_time = INFINITY, deadline = INFINITY, remaining_time = 0,
               activated_at = INFINITY, flags = 0, on_my_behalf = None\<rparr>))
        \<lparr>tickets_waiting_4_event := Some Map.empty\<rparr>)\<rparr>)
   = Inl ASSERT_FAILED"
  by (rule gang_free_pdata_after_alloc_faults [THEN conjunct2, THEN conjunct1])

section \<open>The schedule decision\<close>

subsection \<open>One round of the selection loop\<close>


lemma install_ticket_Inr:
  "install_ticket cs m tk cur = Inr cur' \<Longrightarrow>
     (\<forall>i. cur' i = (if i \<in> set cs \<and> bit m i then Some tk else cur i))
     \<and> (\<forall>i \<in> set cs. bit m i \<longrightarrow> cur i = None)"
proof (induction cs arbitrary: cur)
  case Nil
  then show ?case by simp
next
  case (Cons i cs)
  show ?case
  proof (cases "bit m i")
    case False
    with Cons.prems have "install_ticket cs m tk cur = Inr cur'"
      by (simp add: cpumask_test_cpu_def)
    from Cons.IH [OF this] False show ?thesis by auto
  next
    case True
    with Cons.prems have n: "cur i = None"
      and r: "install_ticket cs m tk (cur(i := Some tk)) = Inr cur'"
      by (auto simp: cpumask_test_cpu_def split: option.splits)
    from Cons.IH [OF r] have
      a: "\<forall>j. cur' j = (if j \<in> set cs \<and> bit m j then Some tk else (cur(i := Some tk)) j)"
      and b: "\<forall>j \<in> set cs. bit m j \<longrightarrow> (cur(i := Some tk)) j = None"
      by blast+
    from b True have ni: "i \<notin> set cs" by auto
    have c1: "\<forall>j. cur' j = (if j \<in> set (i # cs) \<and> bit m j then Some tk else cur j)"
      using a True by auto
    have c2: "\<forall>j \<in> set (i # cs). bit m j \<longrightarrow> cur j = None"
    proof (intro ballI impI)
      fix j assume j: "j \<in> set (i # cs)" and bj: "bit m j"
      show "cur j = None"
      proof (cases "j = i")
        case True
        with n show ?thesis by simp
      next
        case False
        with j have "j \<in> set cs" by simp
        with b bj have "(cur(i := Some tk)) j = None" by blast
        with False show ?thesis by simp
      qed
    qed
    from c1 c2 show ?thesis by blast
  qed
qed

lemma install_all:
  fixes m :: "('n::len) word"
  assumes "install_ticket [0..<LENGTH('n)] m tk cur = Inr cur'"
  shows "cur' i = (if bit m i then Some tk else cur i)" and "bit m i \<Longrightarrow> cur i = None"
proof -
  have in_range: "bit m i \<Longrightarrow> i \<in> set [0..<LENGTH('n)]"
    using bit_imp_le_length [of m i] by simp
  from install_ticket_Inr [OF assms] in_range
  show "cur' i = (if bit m i then Some tk else cur i)" and "bit m i \<Longrightarrow> cur i = None"
    by auto
qed

lemma not_intersects_iff:
  "\<not> cpumask_intersects a b \<longleftrightarrow> (\<forall>c. \<not> (bit a c \<and> bit b c))"
  by (auto simp: cpumask_intersects_def bit_eq_iff bit_and_iff dest: bit_imp_le_length)



lemma round_head:
  assumes r: "do_schedule_round g cpu_id now v = Inr (v', brk)"
  obtains tk where "head_of_runnable_Q (sched v) = Some tk"
proof (cases "head_of_runnable_Q (sched v)")
  case None
  with r show ?thesis
    by (simp add: do_schedule_round_def remove_from_runnable_Q_def)
next
  case (Some tk)
  then show ?thesis by (rule that)
qed

lemma round_selects:
  fixes v :: "('n::len) do_schedule_vars"
  assumes r: "do_schedule_round g cpu_id now v = Inr (v', brk)"
    and h: "head_of_runnable_Q (sched v) = Some tk"
    and ni: "\<not> cpumask_intersects (assigned_cpus v) (cpumask (dom_info (ticket_mem (sched v) tk)))"
  shows "\<exists>cur'. install_ticket [0..<LENGTH('n)] (cpumask (dom_info (ticket_mem (sched v) tk))) tk
                  (cur_ticket_per_cpu (sched v)) = Inr cur'
           \<and> cur_ticket_per_cpu (sched v') = cur'
           \<and> assigned_cpus v' = assigned_cpus v OR cpumask (dom_info (ticket_mem (sched v) tk))"
proof -
  have ne: "\<not> RB_EMPTY (edf_runnable_Q (sched v))"
    using h by (auto simp: head_of_runnable_Q_def RB_MIN_def RB_EMPTY_def split: list.splits)
  let ?s1 = "(sched v)\<lparr>edf_runnable_Q := RB_REMOVE tk (edf_runnable_Q (sched v))\<rparr>"
  have rm: "remove_from_runnable_Q (sched v) (head_of_runnable_Q (sched v)) = Inr (?s1, tk)"
    using h ne by (simp add: remove_from_runnable_Q_def)
  show ?thesis
  proof (cases "install_ticket [0..<LENGTH('n)] (cpumask (dom_info (ticket_mem (sched v) tk))) tk
                  (cur_ticket_per_cpu (sched v))")
    case (Inl e)
    with r rm ni show ?thesis
      by (simp add: do_schedule_round_def Let_def)
  next
    case (Inr cur')
    with r rm ni show ?thesis
      by (cases "tm_muxing_spec (dom_info (ticket_mem (sched v) tk))")
         (auto simp: do_schedule_round_def Let_def cpumask_or_def split: if_splits)
  qed
qed


lemma round_defers:
  assumes r: "do_schedule_round g cpu_id now v = Inr (v', brk)"
    and h: "head_of_runnable_Q (sched v) = Some tk"
    and ov: "cpumask_intersects (assigned_cpus v) (cpumask (dom_info (ticket_mem (sched v) tk)))"
  shows "ticket_mem (sched v') = ticket_mem (sched v)
       \<and> activation_Q (sched v')
           = RB_INSERT cmp_tckt_rel_times (ticket_mem (sched v)) tk (activation_Q (sched v))
       \<and> edf_runnable_Q (sched v') = RB_REMOVE tk (edf_runnable_Q (sched v))
       \<and> cur_ticket_per_cpu (sched v') = cur_ticket_per_cpu (sched v)
       \<and> assigned_cpus v' = assigned_cpus v
       \<and> 0 <s deadline (ticket_mem (sched v) tk) - remaining_time (ticket_mem (sched v) tk)
       \<and> end_of_time_slice v'
           = MIN_time (end_of_time_slice v)
               (if deadline (ticket_mem (sched v) tk) - remaining_time (ticket_mem (sched v) tk)
                     \<le>s now
                then now + ms_2_ns 1
                else deadline (ticket_mem (sched v) tk) - remaining_time (ticket_mem (sched v) tk))"
  using assms
  by (auto simp: do_schedule_round_def remove_from_runnable_Q_def Let_def
      insert_into_activation_Q_def word_sless_alt word_sle_eq
      split: if_splits sum.splits)

lemma round_selects_dom_info:
  fixes v :: "('n::len) do_schedule_vars"
  assumes r: "do_schedule_round g cpu_id now v = Inr (v', brk)"
    and h: "head_of_runnable_Q (sched v) = Some tk"
    and ni: "\<not> cpumask_intersects (assigned_cpus v) (cpumask (dom_info (ticket_mem (sched v) tk)))"
  shows "dom_info (ticket_mem (sched v') p) = dom_info (ticket_mem (sched v) p)"
proof -
  have ne: "\<not> RB_EMPTY (edf_runnable_Q (sched v))"
    using h by (auto simp: head_of_runnable_Q_def RB_MIN_def RB_EMPTY_def split: list.splits)
  let ?s1 = "(sched v)\<lparr>edf_runnable_Q := RB_REMOVE tk (edf_runnable_Q (sched v))\<rparr>"
  have rm: "remove_from_runnable_Q (sched v) (head_of_runnable_Q (sched v)) = Inr (?s1, tk)"
    using h ne by (simp add: remove_from_runnable_Q_def)
  show ?thesis
  proof (cases "install_ticket [0..<LENGTH('n)] (cpumask (dom_info (ticket_mem (sched v) tk))) tk
                  (cur_ticket_per_cpu (sched v))")
    case (Inl e)
    with r rm ni show ?thesis
      by (simp add: do_schedule_round_def Let_def)
  next
    case (Inr cur')
    with r rm ni show ?thesis
      by (cases "tm_muxing_spec (dom_info (ticket_mem (sched v) tk))")
         (auto simp: do_schedule_round_def Let_def split: if_splits)
  qed
qed

lemma round_dom_info:
  assumes r: "do_schedule_round g cpu_id now v = Inr (v', brk)"
  shows "dom_info (ticket_mem (sched v') p) = dom_info (ticket_mem (sched v) p)"
proof -
  from r obtain tk where h: "head_of_runnable_Q (sched v) = Some tk" by (rule round_head)
  show ?thesis
  proof (cases "cpumask_intersects (assigned_cpus v) (cpumask (dom_info (ticket_mem (sched v) tk)))")
    case True
    from round_defers [OF r h True] show ?thesis by simp
  next
    case False
    from round_selects_dom_info [OF r h False] show ?thesis .
  qed
qed

lemma round_table_inv:
  fixes v :: "('n::len) do_schedule_vars"
  assumes r: "do_schedule_round g cpu_id now v = Inr (v', brk)" and inv: "table_inv v"
  shows "table_inv v'"
proof -
  from r obtain tk where h: "head_of_runnable_Q (sched v) = Some tk" by (rule round_head)
  let ?m = "cpumask (dom_info (ticket_mem (sched v) tk))"
  have di: "\<And>p. dom_info (ticket_mem (sched v') p) = dom_info (ticket_mem (sched v) p)"
    by (rule round_dom_info [OF r])
  show ?thesis
  proof (cases "cpumask_intersects (assigned_cpus v) ?m")
    case True
    from round_defers [OF r h True]
    have eqs: "cur_ticket_per_cpu (sched v') = cur_ticket_per_cpu (sched v)"
      "assigned_cpus v' = assigned_cpus v"
      by simp_all
    show ?thesis
      unfolding table_inv_def eqs di using inv unfolding table_inv_def .
  next
    case False
    from round_selects [OF r h False] obtain cur' where
      ins: "install_ticket [0..<LENGTH('n)] ?m tk (cur_ticket_per_cpu (sched v)) = Inr cur'"
      and c: "cur_ticket_per_cpu (sched v') = cur'"
      and a: "assigned_cpus v' = assigned_cpus v OR ?m"
      by blast
    note new = install_all [OF ins]
    from False have dis: "\<And>c. bit (assigned_cpus v) c \<Longrightarrow> \<not> bit ?m c"
      by (auto simp: not_intersects_iff)
    have old: "\<And>c t. cur_ticket_per_cpu (sched v) c = Some t \<Longrightarrow>
        bit (assigned_cpus v) c \<and> bit (cpumask (dom_info (ticket_mem (sched v) t))) c
        \<and> (\<forall>c'. bit (cpumask (dom_info (ticket_mem (sched v) t))) c'
               \<longrightarrow> cur_ticket_per_cpu (sched v) c' = Some t)"
      using inv unfolding table_inv_def by blast
    show ?thesis
      unfolding table_inv_def
    proof (intro allI impI)
      fix c t
      assume "cur_ticket_per_cpu (sched v') c = Some t"
      then have ct: "cur' c = Some t" by (simp add: c)
      show "bit (assigned_cpus v') c
          \<and> bit (cpumask (dom_info (ticket_mem (sched v') t))) c
          \<and> (\<forall>c'. bit (cpumask (dom_info (ticket_mem (sched v') t))) c'
                \<longrightarrow> cur_ticket_per_cpu (sched v') c' = Some t)"
      proof (cases "bit ?m c")
        case True
        with new(1) [of c] ct have t: "t = tk" by simp
        have 1: "bit (assigned_cpus v') c" using True by (simp add: a bit_or_iff)
        have 2: "bit (cpumask (dom_info (ticket_mem (sched v') t))) c"
          using True by (simp add: di t)
        have 3: "\<forall>c'. bit (cpumask (dom_info (ticket_mem (sched v') t))) c'
                \<longrightarrow> cur_ticket_per_cpu (sched v') c' = Some t"
          using new(1) by (simp add: di t c)
        from 1 2 3 show ?thesis by blast
      next
        case nb: False
        with new(1) [of c] ct have o: "cur_ticket_per_cpu (sched v) c = Some t" by simp
        note oc = old [OF o]
        have 3: "\<forall>c'. bit (cpumask (dom_info (ticket_mem (sched v') t))) c'
                \<longrightarrow> cur_ticket_per_cpu (sched v') c' = Some t"
        proof (intro allI impI)
          fix c' assume "bit (cpumask (dom_info (ticket_mem (sched v') t))) c'"
          then have b: "bit (cpumask (dom_info (ticket_mem (sched v) t))) c'" by (simp add: di)
          with oc have o': "cur_ticket_per_cpu (sched v) c' = Some t" by blast
          have "\<not> bit ?m c'"
          proof
            assume "bit ?m c'"
            from new(2) [OF this] o' show False by simp
          qed
          with new(1) [of c'] o' show "cur_ticket_per_cpu (sched v') c' = Some t"
            by (simp add: c)
        qed
        have 1: "bit (assigned_cpus v') c" using oc by (simp add: a bit_or_iff)
        have 2: "bit (cpumask (dom_info (ticket_mem (sched v') t))) c" using oc by (simp add: di)
        from 1 2 3 show ?thesis by blast
      qed
    qed
  qed
qed

lemma loop_table_inv:
  "do_schedule_loop g cpu_id now v = Inr v' \<Longrightarrow> table_inv v \<Longrightarrow> table_inv v'"
proof (induction g cpu_id now v rule: do_schedule_loop.induct)
  case (1 g cpu_id now v)
  note unf = do_schedule_loop.simps [of g cpu_id now v]
  show ?case
  proof (cases "is_runnable_Q_empty (sched v)")
    case True
    with "1.prems" unf show ?thesis by simp
  next
    case False
    with "1.prems"(1) unf obtain v1 brk where
      r: "do_schedule_round g cpu_id now v = Inr (v1, brk)"
      by (auto split: sum.splits)
    have i1: "table_inv v1" by (rule round_table_inv [OF r "1.prems"(2)])
    show ?thesis
    proof (cases brk)
      case True
      with "1.prems"(1) False r unf have "v' = v1" by simp
      with i1 show ?thesis by simp
    next
      case nb: False
      with "1.prems"(1) False r unf have "do_schedule_loop g cpu_id now v1 = Inr v'" by simp
      from "1.IH" [OF False r refl nb this i1] show ?thesis .
    qed
  qed
qed


lemma activate_due_tickets_cur:
  "activate_due_tickets s now = Inr s' \<Longrightarrow> cur_ticket_per_cpu s' = cur_ticket_per_cpu s"
proof (induction s now rule: activate_due_tickets.induct)
  case (1 s now)
  note unf = activate_due_tickets.simps [of s now]
  show ?case
  proof (cases "head_of_activation_Q s")
    case None
    with "1.prems" unf show ?thesis by simp
  next
    case (Some tkt)
    show ?thesis
    proof (cases "earliest_start_time (ticket_mem s tkt) \<le>s now")
      case False
      with "1.prems" unf Some show ?thesis by simp
    next
      case True
      define s1 where "s1 = s\<lparr>activation_Q := RB_REMOVE tkt (activation_Q s)\<rparr>"
      define t where "t = ticket_mem s1 tkt"
      define s2 where "s2 = (if bit (flags t) GSBIT_WAS_WAITING_FOR_EVENT
                       then s1\<lparr>ticket_mem := (ticket_mem s1)
                              (tkt := t\<lparr>flags := unset_bit GSBIT_WAS_WAITING_FOR_EVENT (flags t)\<rparr>)\<rparr>
                       else s1)"
      have rec: "activate_due_tickets (insert_into_runnable_Q s2 tkt) now = Inr s'"
        using "1.prems" unfolding unf Some option.case if_P [OF True] Let_def s1_def t_def s2_def .
      from "1.IH" [OF Some True s1_def t_def s2_def rec]
      show ?thesis by (simp add: s2_def s1_def insert_into_runnable_Q_def)
    qed
  qed
qed

lemma update_sched_info_cur:
  assumes "update_sched_info g s now = Inr (s1, ea)"
  shows "cur_ticket_per_cpu s1 = (\<lambda>_. None)"
proof -
  from assms obtain s0 where
    u: "update_current_tickets g s now = Inr s0"
    by (auto simp: update_sched_info_def split: sum.splits)
  then have c0: "cur_ticket_per_cpu s0 = (\<lambda>_. None)"
    by (auto simp: update_current_tickets_def split: sum.splits)
  show ?thesis
  proof (cases "now = INFINITY")
    case True
    with assms u c0 show ?thesis by (simp add: update_sched_info_def)
  next
    case False
    with assms u have "activate_due_tickets s0 now = Inr s1"
      by (auto simp: update_sched_info_def split: sum.splits option.splits)
    from activate_due_tickets_cur [OF this] c0 show ?thesis by simp
  qed
qed

lemma exit_gang_do_schedule_state:
  "exit_gang_do_schedule g cpu_id now s ticket eots = Inr (s', r) \<Longrightarrow> s' = s"
  by (auto simp: exit_gang_do_schedule_def Let_def split: option.splits if_splits)

lemma handle_guest_yield_frame:
  assumes "handle_guest_yield s current ticket = Inr (s', ticket')"
  shows "cur_ticket_per_cpu s' = cur_ticket_per_cpu s"
    and "dom_info (ticket_mem s' p) = dom_info (ticket_mem s p)"
  using assms
  by (auto simp: handle_guest_yield_def Let_def split: if_splits option.splits)


text \<open>
  Claim C1: the gang invariant of a schedule decision.  A ticket is selected in a decision
  when the decision installs it in the table of current tickets; the table is cleared at
  the start of every decision that gets past the test for an empty pool
  (\<open>num_of_cohorts g \<noteq> 0\<close>), so its entries at the end are the tickets selected in this
  decision.  If the decision returns, then a ticket that is current on some CPU is
  current on every CPU of its domain's mask (and only there), and the masks of two
  different current tickets do not intersect.
\<close>

theorem gang_do_schedule_gang_invariant:
  assumes run: "gang_do_schedule g cpu_id current sp now tasklet_work_scheduled = Inr (s', r)"
    and nc: "num_of_cohorts g \<noteq> 0"
  shows "(\<forall>c t. cur_ticket_per_cpu s' c = Some t \<longrightarrow>
            bit (cpumask (dom_info (ticket_mem s' t))) c
            \<and> (\<forall>c'. bit (cpumask (dom_info (ticket_mem s' t))) c'
                  \<longrightarrow> cur_ticket_per_cpu s' c' = Some t))
       \<and> (\<forall>c1 c2 t1 t2. cur_ticket_per_cpu s' c1 = Some t1
              \<and> cur_ticket_per_cpu s' c2 = Some t2 \<and> t1 \<noteq> t2 \<longrightarrow>
            \<not> cpumask_intersects (cpumask (dom_info (ticket_mem s' t1)))
                                  (cpumask (dom_info (ticket_mem s' t2))))"
proof -
  have gang: "\<forall>c t. cur_ticket_per_cpu s' c = Some t \<longrightarrow>
            bit (cpumask (dom_info (ticket_mem s' t))) c
            \<and> (\<forall>c'. bit (cpumask (dom_info (ticket_mem s' t))) c'
                  \<longrightarrow> cur_ticket_per_cpu s' c' = Some t)"
  proof -
    from run obtain s where sp: "sp = Some s"
      by (cases sp) (simp_all add: gang_do_schedule_def)
    from run sp nc have nm: "num_of_muxgroups g \<noteq> 0"
      by (auto simp: gang_do_schedule_def split: if_splits)
    from run sp nc nm obtain s1 ea where u: "update_sched_info g s now = Inr (s1, ea)"
      by (auto simp: gang_do_schedule_def split: sum.splits)
    note c1 = update_sched_info_cur [OF u]
    show ?thesis
    proof (cases tasklet_work_scheduled)
      case True
      with run sp nc nm u have "exit_gang_do_schedule g cpu_id now s1 None INFINITY = Inr (s', r)"
        by (simp add: gang_do_schedule_def)
      from exit_gang_do_schedule_state [OF this] c1 show ?thesis by simp
    next
      case False
      let ?v0 = "\<lparr>sched = s1, assigned_cpus = 0, end_of_time_slice = INFINITY,
                  num_of_runnable_domains = 0, non_muxed_domain_present = False\<rparr>"
      from run sp nc nm u False obtain v where l: "do_schedule_loop g cpu_id now ?v0 = Inr v"
        by (auto simp: gang_do_schedule_def split: sum.splits)
      have "table_inv ?v0" by (simp add: table_inv_def c1)
      from loop_table_inv [OF l this] have iv: "table_inv v" .
      from run sp nc nm u False l obtain s3 tk' eots where
        y: "handle_guest_yield (sched v) current (cur_ticket_per_cpu (sched v) cpu_id) = Inr (s3, tk')"
        and e: "exit_gang_do_schedule g cpu_id now s3 tk' eots = Inr (s', r)"
        by (auto simp: gang_do_schedule_def Let_def split: sum.splits if_splits)
      from exit_gang_do_schedule_state [OF e] have s': "s' = s3" .
      note fr = handle_guest_yield_frame [OF y]
      show ?thesis
        unfolding s' fr using iv unfolding table_inv_def by blast
    qed
  qed
  have dis: "\<forall>c1 c2 t1 t2. cur_ticket_per_cpu s' c1 = Some t1
              \<and> cur_ticket_per_cpu s' c2 = Some t2 \<and> t1 \<noteq> t2 \<longrightarrow>
            \<not> cpumask_intersects (cpumask (dom_info (ticket_mem s' t1)))
                                  (cpumask (dom_info (ticket_mem s' t2)))"
  proof (intro allI impI)
    fix c1 c2 t1 t2
    assume a: "cur_ticket_per_cpu s' c1 = Some t1
              \<and> cur_ticket_per_cpu s' c2 = Some t2 \<and> t1 \<noteq> t2"
    show "\<not> cpumask_intersects (cpumask (dom_info (ticket_mem s' t1)))
                                  (cpumask (dom_info (ticket_mem s' t2)))"
      unfolding not_intersects_iff
    proof (intro allI notI)
      fix c
      assume b: "bit (cpumask (dom_info (ticket_mem s' t1))) c
               \<and> bit (cpumask (dom_info (ticket_mem s' t2))) c"
      from gang a b have "cur_ticket_per_cpu s' c = Some t1" by blast
      moreover from gang a b have "cur_ticket_per_cpu s' c = Some t2" by blast
      ultimately show False using a by simp
    qed
  qed
  from gang dis show ?thesis by blast
qed

theorem gang_do_schedule_gang_invariant_witness:
  "\<not> isl (gang_do_schedule ex_globals 0 (idle_vcpu ex_globals 0) (Some (ex_sched 0)) 1000000 False)
   \<and> num_of_cohorts ex_globals \<noteq> 0
   \<and> cur_ticket_per_cpu (fst (projr (gang_do_schedule ex_globals 0 (idle_vcpu ex_globals 0)
                                       (Some (ex_sched 0)) 1000000 False))) 0 = Some 1
   \<and> bit (cpumask (dom_info (ticket_mem (fst (projr (gang_do_schedule ex_globals 0
             (idle_vcpu ex_globals 0) (Some (ex_sched 0)) 1000000 False))) 1))) 1
   \<and> cur_ticket_per_cpu (fst (projr (gang_do_schedule ex_globals 0 (idle_vcpu ex_globals 0)
                                       (Some (ex_sched 0)) 1000000 False))) 1 = Some 1"
proof -
  let ?R = "gang_do_schedule ex_globals 0 (idle_vcpu ex_globals 0) (Some (ex_sched 0)) 1000000 False"
  have ok: "\<not> isl ?R" by code_simp
  have nc: "num_of_cohorts ex_globals \<noteq> 0" by (simp add: ex_globals_def)
  have c0: "cur_ticket_per_cpu (fst (projr ?R)) 0 = Some 1" by code_simp
  have b1: "bit (cpumask (dom_info (ticket_mem (fst (projr ?R)) 1))) 1" by code_simp
  from ok have "?R = Inr (fst (projr ?R), snd (projr ?R))" by (cases ?R) auto
  from gang_do_schedule_gang_invariant [OF this nc] c0 b1
  have "cur_ticket_per_cpu (fst (projr ?R)) 1 = Some 1" by blast
  with ok nc c0 b1 show ?thesis by blast
qed


subsection \<open>Deferred tickets\<close>

text \<open>
  Claim C3, as stated, fails: the deferred ticket goes back into the activation queue with
  its \<open>earliest_start_time\<close> untouched; the computed \<open>tval\<close> only bounds the end of the time
  slice.  In the example both tickets are due at time 0 and the decision runs at 1 ms:
  domain 1 is selected, domain 2 overlaps it on CPU 1 and is deferred.  Its ticket is then
  in the activation queue with earliest start time 0, which is not in the future and is
  not \<open>tval = max(deadline - remaining_time, now + 1 ms) = 50 ms\<close>.
\<close>

theorem deferred_ticket_keeps_earliest_start_time:
  "(case gang_do_schedule ex_globals 0 (idle_vcpu ex_globals 0) (Some (ex_sched 0))
           1000000 False of
      Inl e \<Rightarrow> False
    | Inr (s, r) \<Rightarrow>
        cur_ticket_per_cpu s 1 = Some 1
        \<and> activation_Q s = [2]
        \<and> earliest_start_time (ticket_mem s 2) = 0
        \<and> earliest_start_time (ticket_mem s 2) \<le>s 1000000
        \<and> deadline (ticket_mem s 2) - remaining_time (ticket_mem s 2) = 50000000
        \<and> earliest_start_time (ticket_mem s 2) \<noteq> 50000000)"
  by code_simp

text \<open>
  Claim C3, amended.  In a round of the selection loop that returns, if the CPU mask of
  the popped ticket's domain intersects the CPUs assigned so far, then no ticket is
  modified (the ticket keeps its \<open>earliest_start_time\<close>), the ticket leaves the runnable
  queue and is inserted into the activation queue, the table of current tickets and the
  assigned CPUs stay as they are, \<open>deadline - remaining_time\<close> is positive, and the end of
  the time slice becomes its minimum with \<open>tval\<close>, where \<open>tval\<close> is
  \<open>deadline - remaining_time\<close>, or \<open>now + 1 ms\<close> when that is not after \<open>now\<close>.
\<close>

theorem do_schedule_round_defers:
  assumes "do_schedule_round g cpu_id now v = Inr (v', brk)"
    and "head_of_runnable_Q (sched v) = Some tk"
    and "cpumask_intersects (assigned_cpus v) (cpumask (dom_info (ticket_mem (sched v) tk)))"
  shows "ticket_mem (sched v') = ticket_mem (sched v)
       \<and> activation_Q (sched v')
           = RB_INSERT cmp_tckt_rel_times (ticket_mem (sched v)) tk (activation_Q (sched v))
       \<and> edf_runnable_Q (sched v') = RB_REMOVE tk (edf_runnable_Q (sched v))
       \<and> cur_ticket_per_cpu (sched v') = cur_ticket_per_cpu (sched v)
       \<and> assigned_cpus v' = assigned_cpus v
       \<and> 0 <s deadline (ticket_mem (sched v) tk) - remaining_time (ticket_mem (sched v) tk)
       \<and> end_of_time_slice v'
           = MIN_time (end_of_time_slice v)
               (if deadline (ticket_mem (sched v) tk) - remaining_time (ticket_mem (sched v) tk)
                     \<le>s now
                then now + ms_2_ns 1
                else deadline (ticket_mem (sched v) tk) - remaining_time (ticket_mem (sched v) tk))"
  using assms by (rule round_defers)

theorem do_schedule_round_defers_witness:
  "\<not> isl (do_schedule_round ex_globals 0 1000000 ex_vars)
   \<and> head_of_runnable_Q (sched ex_vars) = Some 2
   \<and> cpumask_intersects (assigned_cpus ex_vars)
        (cpumask (dom_info (ticket_mem (sched ex_vars) 2)))
   \<and> ticket_mem (sched (fst (projr (do_schedule_round ex_globals 0 1000000 ex_vars))))
       = ticket_mem (sched ex_vars)
   \<and> earliest_start_time
        (ticket_mem (sched (fst (projr (do_schedule_round ex_globals 0 1000000 ex_vars)))) 2) = 0
   \<and> activation_Q (sched (fst (projr (do_schedule_round ex_globals 0 1000000 ex_vars)))) = [2]
   \<and> end_of_time_slice (fst (projr (do_schedule_round ex_globals 0 1000000 ex_vars)))
       = 50000000"
proof -
  let ?R = "do_schedule_round ex_globals 0 1000000 ex_vars"
  have ok: "\<not> isl ?R" by code_simp
  have h: "head_of_runnable_Q (sched ex_vars) = Some 2" by code_simp
  have ov: "cpumask_intersects (assigned_cpus ex_vars)
              (cpumask (dom_info (ticket_mem (sched ex_vars) 2)))" by code_simp
  have e0: "earliest_start_time (ticket_mem (sched ex_vars) 2) = 0" by code_simp
  have aq: "activation_Q (sched (fst (projr ?R))) = [2]" by code_simp
  have et: "end_of_time_slice (fst (projr ?R)) = 50000000" by code_simp
  from ok have "?R = Inr (fst (projr ?R), snd (projr ?R))" by (cases ?R) auto
  from do_schedule_round_defers [OF this h ov]
  have "ticket_mem (sched (fst (projr ?R))) = ticket_mem (sched ex_vars)" by blast
  with ok h ov e0 aq et show ?thesis by simp
qed

subsection \<open>A pending tasklet\<close>

lemma exit_gang_do_schedule_idle:
  "exit_gang_do_schedule g cpu_id now s None INFINITY
     = Inr (s, \<lparr>task = idle_vcpu g cpu_id, time = - 1, migrated = False\<rparr>)"
  by (simp add: exit_gang_do_schedule_def word_sless_alt)

text \<open>
  Claim C7, as stated, fails: with the tasklet hint the code jumps to the exit while
  \<^verbatim>\<open>end_of_time_slice\<close> still is \<open>INFINITY\<close>, and \<open>earliest_actv\<close> is not used.  In the
  example the activation queue is not empty, its head is due at 5 ms and the decision runs
  at 1 ms: the returned time is -1 (no limit), not 4 ms.
\<close>

theorem gang_do_schedule_tasklet_ignores_earliest_actv:
  "(case gang_do_schedule ex_globals 0 (idle_vcpu ex_globals 0) (Some (ex_sched 5000000))
           1000000 True of
      Inl e \<Rightarrow> False
    | Inr (s, r) \<Rightarrow>
        head_of_activation_Q s = Some 1
        \<and> earliest_start_time (ticket_mem s 1) = 5000000
        \<and> time r = - 1
        \<and> time r \<noteq> 5000000 - 1000000)"
  by code_simp

text \<open>
  Claim C7, amended.  Every decision with the tasklet hint set that returns selects the
  idle VCPU of its CPU and returns the time -1 ("no limit"), whatever the activation queue
  holds.
\<close>

theorem gang_do_schedule_tasklet:
  assumes "gang_do_schedule g cpu_id current sp now True = Inr (s', r)"
  shows "task r = idle_vcpu g cpu_id \<and> time r = - 1 \<and> migrated r = False"
  using assms
  by (auto simp: gang_do_schedule_def exit_gang_do_schedule_idle
      split: option.splits if_splits sum.splits)

theorem gang_do_schedule_tasklet_witness:
  "\<not> isl (gang_do_schedule ex_globals 0 (idle_vcpu ex_globals 0) (Some (ex_sched 5000000))
            1000000 True)
   \<and> task (snd (projr (gang_do_schedule ex_globals 0 (idle_vcpu ex_globals 0)
                         (Some (ex_sched 5000000)) 1000000 True)))
       = idle_vcpu ex_globals 0
   \<and> time (snd (projr (gang_do_schedule ex_globals 0 (idle_vcpu ex_globals 0)
                         (Some (ex_sched 5000000)) 1000000 True))) = - 1"
proof -
  let ?R = "gang_do_schedule ex_globals 0 (idle_vcpu ex_globals 0) (Some (ex_sched 5000000))
              1000000 True"
  have ok: "\<not> isl ?R" by code_simp
  then have "?R = Inr (fst (projr ?R), snd (projr ?R))" by (cases ?R) auto
  from gang_do_schedule_tasklet [OF this] ok show ?thesis by simp
qed

section \<open>Updating the times of a ticket\<close>


lemma set_RB_INSERT: "set (RB_INSERT cmp mem e q) = insert e (set q)"
  by (induction q) auto

lemma floor_to_grain_Inr:
  "floor_to_grain us now = Inr est \<Longrightarrow>
     est = word_of_int (sint now sdiv sint (GANG_FINEST_TIME_GRAIN us)) * GANG_FINEST_TIME_GRAIN us"
  by (auto simp: floor_to_grain_def s_time_div_def split: if_splits)

lemma sint_floor_grain:
  fixes now grain :: "64 word"
  assumes n: "0 \<le>s now" and g: "0 <s grain"
  shows "sint (word_of_int (sint now sdiv sint grain) * grain)
           = (sint now div sint grain) * sint grain"
proof -
  let ?a = "sint now" and ?b = "sint grain"
  have a: "0 \<le> ?a" "?a < 2 ^ 63" using n sint_lt [of now] by (simp_all add: word_sle_eq)
  have b: "0 < ?b" using g by (simp add: word_sless_alt)
  have sd: "?a sdiv ?b = ?a div ?b"
    using a b by (simp add: signed_divide_int_def sgn_if)
  have q0: "0 \<le> ?a div ?b" using a b by (simp add: pos_imp_zdiv_nonneg_iff)
  have "?a = (?a div ?b) * ?b + ?a mod ?b" by simp
  moreover have "0 \<le> ?a mod ?b" using b by simp
  ultimately have qb: "(?a div ?b) * ?b \<le> ?a" by linarith
  have "(?a div ?b) * 1 \<le> (?a div ?b) * ?b"
    using q0 b by (intro mult_left_mono) simp_all
  then have q1: "?a div ?b \<le> ?a" using qb by simp
  have sq: "sint (word_of_int (?a div ?b) :: 64 word) = ?a div ?b"
    using q0 q1 a by (simp add: sint_sbintrunc' signed_take_bit_int_eq_self)
  have "sint (word_of_int (?a sdiv ?b) * grain) = signed_take_bit 63 ((?a div ?b) * ?b)"
    by (simp add: sint_word_mult sd sq)
  also have "\<dots> = (?a div ?b) * ?b"
  proof (rule signed_take_bit_int_eq_self)
    have "0 \<le> (?a div ?b) * ?b" using q0 b by simp
    then show "- (2 ^ 63) \<le> (?a div ?b) * ?b" by simp
    show "(?a div ?b) * ?b < 2 ^ 63" using qb a by simp
  qed
  finally show ?thesis .
qed


text \<open>
  Claim C6: \<^verbatim>\<open>__update_times_in_ticket\<close> called for normal scheduling at time \<open>now\<close> on the
  ticket at address \<open>tkt\<close>.  With \<open>spent = max(0, now - activated_at)\<close> and
  \<open>r = remaining_time - spent\<close>: a multiplexed ticket with \<open>now - activated_at < -10 us\<close>
  is rejected (\<^verbatim>\<open>BUG\<close>); an update that returns leaves the ticket in the activation queue;
  an exclusive ticket is inserted as it is; a multiplexed ticket is written back with
  remaining time \<open>r\<close>, or, when \<open>r\<close> is below the margin, re-armed as its policy says, and
  then inserted.  For a time \<open>now \<ge> 0\<close> and a positive grain the value stored as earliest
  start time of an event-triggered or best-effort ticket is \<open>floor(now / grain) * grain\<close>.
\<close>

theorem update_times_in_ticket_normal:
  "(let t = ticket_mem s tkt;
        spent = (if now - activated_at t <s 0 then 0 else now - activated_at t);
        r = remaining_time t - spent;
        grain = GANG_FINEST_TIME_GRAIN (sched_ratelimit_us g);
        floor_now = word_of_int (sint now sdiv sint grain) * grain
    in (policy_type (tm_muxing_spec (dom_info t)) \<noteq> 1 \<and> now - activated_at t <s - 10000
          \<longrightarrow> update_times_in_ticket g s tkt now NORMAL_SCHEDULING = Inl BUG)
     \<and> (0 \<le>s now \<and> 0 <s grain \<longrightarrow> sint floor_now = (sint now div sint grain) * sint grain)
     \<and> (\<forall>s'. update_times_in_ticket g s tkt now NORMAL_SCHEDULING = Inr s' \<longrightarrow>
           tkt \<in> set (activation_Q s')
         \<and> (case tm_muxing_spec (dom_info t) of
               GANG_NO_MUXING p \<Rightarrow> s' = insert_into_activation_Q s tkt
             | GANG_TIME_TRIG_MUXING p \<Rightarrow>
                 s' = insert_into_activation_Q
                        (s\<lparr>ticket_mem := (ticket_mem s)(tkt :=
                             if r <s MARGIN
                             then t\<lparr>earliest_start_time := earliest_start_time t + tt_period p,
                                    deadline := deadline t + tt_period p,
                                    remaining_time := tt_active_time p\<rparr>
                             else t\<lparr>remaining_time := r\<rparr>)\<rparr>) tkt
             | GANG_EVENT_TRIG_MUXING p \<Rightarrow>
                 s' = insert_into_activation_Q
                        (s\<lparr>ticket_mem := (ticket_mem s)(tkt :=
                             if r <s MARGIN
                             then t\<lparr>earliest_start_time := floor_now,
                                    deadline := deadline t + et_period p,
                                    remaining_time := et_active_time p\<rparr>
                             else t\<lparr>remaining_time := r\<rparr>)\<rparr>) tkt
             | GANG_BEST_EFFORT_MUXING p \<Rightarrow>
                 s' = insert_into_activation_Q
                        (s\<lparr>ticket_mem := (ticket_mem s)(tkt :=
                             if r <s MARGIN
                             then t\<lparr>earliest_start_time := floor_now,
                                    deadline := deadline t
                                      + scast (be_doms_in_cohort g ! nat (cohort (dom_info t)))
                                        * period_4_be_doms g,
                                    remaining_time := quantum_4_be_doms g\<rparr>
                             else t\<lparr>remaining_time := r\<rparr>)\<rparr>) tkt
             | _ \<Rightarrow> False)))"
proof -
  have rej: "policy_type (tm_muxing_spec (dom_info (ticket_mem s tkt))) \<noteq> 1
      \<Longrightarrow> now - activated_at (ticket_mem s tkt) <s - 10000
      \<Longrightarrow> update_times_in_ticket g s tkt now NORMAL_SCHEDULING = Inl BUG"
    by (cases "tm_muxing_spec (dom_info (ticket_mem s tkt))")
       (auto simp: update_times_in_ticket_def Let_def MIN_NEGATIVE_DIFF_def NORMAL_SCHEDULING_def
          NUM_OF_REASONS_4_UPDATING_TIME_IN_TICKET_def)
  have mem: "\<And>s'. update_times_in_ticket g s tkt now NORMAL_SCHEDULING = Inr s'
      \<Longrightarrow> tkt \<in> set (activation_Q s')"
    by (auto simp: update_times_in_ticket_def Let_def insert_into_activation_Q_def set_RB_INSERT
        split: if_splits sum.splits gang_sched_policy_t.splits)
  have upd: "\<And>s'. update_times_in_ticket g s tkt now NORMAL_SCHEDULING = Inr s' \<Longrightarrow>
      (let t = ticket_mem s tkt;
        spent = (if now - activated_at t <s 0 then 0 else now - activated_at t);
        r = remaining_time t - spent;
        grain = GANG_FINEST_TIME_GRAIN (sched_ratelimit_us g);
        floor_now = word_of_int (sint now sdiv sint grain) * grain
       in case tm_muxing_spec (dom_info t) of
               GANG_NO_MUXING p \<Rightarrow> s' = insert_into_activation_Q s tkt
             | GANG_TIME_TRIG_MUXING p \<Rightarrow>
                 s' = insert_into_activation_Q
                        (s\<lparr>ticket_mem := (ticket_mem s)(tkt :=
                             if r <s MARGIN
                             then t\<lparr>earliest_start_time := earliest_start_time t + tt_period p,
                                    deadline := deadline t + tt_period p,
                                    remaining_time := tt_active_time p\<rparr>
                             else t\<lparr>remaining_time := r\<rparr>)\<rparr>) tkt
             | GANG_EVENT_TRIG_MUXING p \<Rightarrow>
                 s' = insert_into_activation_Q
                        (s\<lparr>ticket_mem := (ticket_mem s)(tkt :=
                             if r <s MARGIN
                             then t\<lparr>earliest_start_time := floor_now,
                                    deadline := deadline t + et_period p,
                                    remaining_time := et_active_time p\<rparr>
                             else t\<lparr>remaining_time := r\<rparr>)\<rparr>) tkt
             | GANG_BEST_EFFORT_MUXING p \<Rightarrow>
                 s' = insert_into_activation_Q
                        (s\<lparr>ticket_mem := (ticket_mem s)(tkt :=
                             if r <s MARGIN
                             then t\<lparr>earliest_start_time := floor_now,
                                    deadline := deadline t
                                      + scast (be_doms_in_cohort g ! nat (cohort (dom_info t)))
                                        * period_4_be_doms g,
                                    remaining_time := quantum_4_be_doms g\<rparr>
                             else t\<lparr>remaining_time := r\<rparr>)\<rparr>) tkt
             | _ \<Rightarrow> False)"
    by (cases "tm_muxing_spec (dom_info (ticket_mem s tkt))")
       (auto simp: update_times_in_ticket_def Let_def VALIDATE_GANG_SCHED_POLICY_TYPE_def
          NUM_OF_GANG_SCHED_POLICIES_def
          dest!: floor_to_grain_Inr split: if_splits sum.splits)
  show ?thesis
    unfolding Let_def
    apply (intro conjI impI allI)
    subgoal using rej by simp
    subgoal using sint_floor_grain by blast
    subgoal using mem by simp
    subgoal for s' using upd [of s'] by (simp add: Let_def)
    done
qed


text \<open>
  The ticket of domain 1, activated at 1 ms with 50 ms to run, updated at 51 ms: its time
  is used up, and it is re-armed for the next period.
\<close>

theorem update_times_in_ticket_normal_witness:
  "\<not> isl (update_times_in_ticket ex_globals (sched ex_vars) 1 51000000 NORMAL_SCHEDULING)
   \<and> 0 \<le>s (51000000 :: s_time_t)
   \<and> 0 <s GANG_FINEST_TIME_GRAIN (sched_ratelimit_us ex_globals)
   \<and> 1 \<in> set (activation_Q (projr (update_times_in_ticket ex_globals (sched ex_vars) 1
                                      51000000 NORMAL_SCHEDULING)))
   \<and> earliest_start_time (ticket_mem (projr (update_times_in_ticket ex_globals (sched ex_vars)
        1 51000000 NORMAL_SCHEDULING)) 1) = 100000000
   \<and> deadline (ticket_mem (projr (update_times_in_ticket ex_globals (sched ex_vars)
        1 51000000 NORMAL_SCHEDULING)) 1) = 200000000
   \<and> remaining_time (ticket_mem (projr (update_times_in_ticket ex_globals (sched ex_vars)
        1 51000000 NORMAL_SCHEDULING)) 1) = 50000000"
proof -
  let ?R = "update_times_in_ticket ex_globals (sched ex_vars) 1 51000000 NORMAL_SCHEDULING"
  have ok: "\<not> isl ?R" by code_simp
  have n: "0 \<le>s (51000000 :: s_time_t)" by code_simp
  have g: "0 <s GANG_FINEST_TIME_GRAIN (sched_ratelimit_us ex_globals)" by code_simp
  have e: "earliest_start_time (ticket_mem (projr ?R) 1) = 100000000" by code_simp
  have d: "deadline (ticket_mem (projr ?R) 1) = 200000000" by code_simp
  have r: "remaining_time (ticket_mem (projr ?R) 1) = 50000000" by code_simp
  from ok have eq: "?R = Inr (projr ?R)" by (cases ?R) auto
  have "\<forall>s'. ?R = Inr s' \<longrightarrow> 1 \<in> set (activation_Q s')"
    using update_times_in_ticket_normal [of "sched ex_vars" 1 51000000 ex_globals]
    unfolding Let_def by blast
  with eq have "1 \<in> set (activation_Q (projr ?R))" by blast
  with ok n g e d r show ?thesis by blast
qed

section \<open>Cohorts\<close>


lemma length_fill_hole [simp]: "length (fill_hole ks cs) = length cs"
  by (induction ks arbitrary: cs) auto

lemma fill_hole_upt:
  "0 < a \<Longrightarrow> b \<le> length cs \<Longrightarrow> k < length cs \<Longrightarrow>
     fill_hole [a..<b] cs ! k = (if a - 1 \<le> k \<and> k + 1 < b then cs ! (k + 1) else cs ! k)"
proof (induction "b - a" arbitrary: a cs)
  case 0
  then show ?case by auto
next
  case (Suc n)
  then have ab: "a < b" by simp
  then have u: "[a..<b] = a # [Suc a..<b]" by (simp add: upt_rec)
  have n: "n = b - Suc a" using Suc.hyps(2) by simp
  have IH: "fill_hole [Suc a..<b] (cs[a - 1 := cs ! a]) ! k
      = (if Suc a - 1 \<le> k \<and> k + 1 < b then (cs[a - 1 := cs ! a]) ! (k + 1)
         else (cs[a - 1 := cs ! a]) ! k)"
    using Suc.hyps(1) [OF n, of "cs[a - 1 := cs ! a]"] Suc.prems by simp
  show ?case
    using IH Suc.prems ab by (auto simp: u nth_list_update)
qed

lemma length_merge_cohorts:
  "merge_cohorts cs num i = (cs', num') \<Longrightarrow> length cs' = length cs \<and> num' \<le> num"
proof (induction cs num i rule: merge_cohorts.induct)
  case (1 cs num i)
  note unf = merge_cohorts.simps [of cs num i]
  show ?case
  proof (cases "i + 1 < num")
    case False
    with "1.prems" unf show ?thesis by simp
  next
    case True
    show ?thesis
    proof (cases "first_overlap cs i [i + 1..<num]")
      case None
      with "1.prems" unf True have "merge_cohorts cs num (i + 1) = (cs', num')" by simp
      from "1.IH"(1) [OF True None this] show ?thesis .
    next
      case (Some j)
      with "1.prems" unf True have
        "merge_cohorts (fill_hole [j + 1..<num] (cs[i := cpumask_or (cs ! i) (cs ! j)]))
               (num - 1) 0 = (cs', num')" by simp
      from "1.IH"(2) [OF True Some this] show ?thesis by auto
    qed
  qed
qed

lemma first_overlap_None:
  "first_overlap cs i js = None \<Longrightarrow> \<forall>j \<in> set js. \<not> cpumask_intersects (cs ! i) (cs ! j)"
  by (induction js) (auto split: if_splits)

lemma first_overlap_Some:
  "first_overlap cs i js = Some j \<Longrightarrow> j \<in> set js \<and> cpumask_intersects (cs ! i) (cs ! j)"
  by (induction js) (auto split: if_splits)

lemma intersects_sym: "cpumask_intersects a b = cpumask_intersects b a"
  by (simp add: cpumask_intersects_def and.commute)

lemma merge_cohorts_disjoint:
  "merge_cohorts cs num i = (cs', num') \<Longrightarrow> scanned cs num i \<Longrightarrow> cohorts_disjoint cs' num'"
proof (induction cs num i rule: merge_cohorts.induct)
  case (1 cs num i)
  note unf = merge_cohorts.simps [of cs num i]
  show ?case
  proof (cases "i + 1 < num")
    case False
    with "1.prems"(1) unf have e: "cs' = cs" "num' = num" by simp_all
    show ?thesis
      unfolding cohorts_disjoint_def e
    proof (intro allI impI)
      fix a b assume ab: "a < num \<and> b < num \<and> a \<noteq> b"
      show "\<not> cpumask_intersects (cs ! a) (cs ! b)"
      proof (cases "a < b")
        case True
        with ab False have "a < i" by simp
        with True ab "1.prems"(2) show ?thesis unfolding scanned_def by blast
      next
        case nb: False
        with ab have ba: "b < a" by simp
        with ab False have "b < i" by simp
        with ba ab "1.prems"(2) have "\<not> cpumask_intersects (cs ! b) (cs ! a)"
          unfolding scanned_def by blast
        then show ?thesis by (simp add: intersects_sym)
      qed
    qed
  next
    case True
    show ?thesis
    proof (cases "first_overlap cs i [i + 1..<num]")
      case None
      with "1.prems" unf True have m: "merge_cohorts cs num (i + 1) = (cs', num')" by simp
      have "scanned cs num (i + 1)"
        unfolding scanned_def
      proof (intro allI impI)
        fix a b assume ab: "a < i + 1 \<and> a < b \<and> b < num"
        show "\<not> cpumask_intersects (cs ! a) (cs ! b)"
        proof (cases "a = i")
          case True
          with ab have "b \<in> set [i + 1..<num]" by simp
          with first_overlap_None [OF None] True show ?thesis by blast
        next
          case False
          with ab have "a < i" by simp
          with ab "1.prems"(2) show ?thesis unfolding scanned_def by blast
        qed
      qed
      from "1.IH"(1) [OF True None m this] show ?thesis .
    next
      case (Some j)
      with "1.prems" unf True have m:
        "merge_cohorts (fill_hole [j + 1..<num] (cs[i := cpumask_or (cs ! i) (cs ! j)]))
               (num - 1) 0 = (cs', num')" by simp
      have "scanned (fill_hole [j + 1..<num] (cs[i := cpumask_or (cs ! i) (cs ! j)])) (num - 1) 0"
        by (simp add: scanned_def)
      from "1.IH"(2) [OF True Some m this] show ?thesis .
    qed
  qed
qed


lemma subset_iff_bits:
  "cpumask_subset a b \<longleftrightarrow> (\<forall>c. bit a c \<longrightarrow> bit b c)"
  by (auto simp: cpumask_subset_def bit_eq_iff bit_and_iff bit_not_iff dest: bit_imp_le_length)

lemma intersects_iff_bits:
  "cpumask_intersects a b \<longleftrightarrow> (\<exists>c. bit a c \<and> bit b c)"
  by (auto simp: cpumask_intersects_def bit_eq_iff bit_and_iff dest: bit_imp_le_length)

lemma subset_or1: "cpumask_subset a (cpumask_or a b)"
  and subset_or2: "cpumask_subset b (cpumask_or a b)"
  and subset_trans: "cpumask_subset a b \<Longrightarrow> cpumask_subset b c \<Longrightarrow> cpumask_subset a c"
  and subset_refl: "cpumask_subset a a"
  by (auto simp: subset_iff_bits cpumask_or_def bit_or_iff)

lemma merge_step_covered:
  assumes i: "i < j" and j: "j < num" and n: "num \<le> length cs" and k: "k < num"
  shows "\<exists>k'. k' < num - 1
           \<and> cpumask_subset (cs ! k)
                (fill_hole [j + 1..<num] (cs[i := cpumask_or (cs ! i) (cs ! j)]) ! k')"
proof -
  let ?c1 = "cs[i := cpumask_or (cs ! i) (cs ! j)]"
  let ?r = "fill_hole [j + 1..<num] ?c1"
  have r: "\<And>k. k < length cs \<Longrightarrow>
      ?r ! k = (if j \<le> k \<and> k + 1 < num then ?c1 ! (k + 1) else ?c1 ! k)"
    using fill_hole_upt [of "j + 1" num ?c1] n by simp
  consider "k = i" | "k = j" | "k < j" "k \<noteq> i" | "j < k" by linarith
  then show ?thesis
  proof cases
    case 1
    have "?r ! i = cpumask_or (cs ! i) (cs ! j)" using r [of i] i j n by simp
    moreover have "i < num - 1" using i j by simp
    ultimately show ?thesis using 1 subset_or1 by metis
  next
    case 2
    have "?r ! i = cpumask_or (cs ! i) (cs ! j)" using r [of i] i j n by simp
    moreover have "i < num - 1" using i j by simp
    ultimately show ?thesis using 2 subset_or2 by metis
  next
    case 3
    have "?r ! k = cs ! k" using r [of k] 3 j n by simp
    moreover have "k < num - 1" using 3 j by simp
    ultimately show ?thesis using subset_refl by metis
  next
    case 4
    have k1: "k - 1 < length cs" "j \<le> k - 1" "k - 1 + 1 < num" "k - 1 + 1 = k"
      using 4 k n by simp_all
    have "?r ! (k - 1) = ?c1 ! (k - 1 + 1)" using r [OF k1(1)] k1(2,3) by simp
    then have "?r ! (k - 1) = ?c1 ! k" by (simp only: k1(4))
    also have "\<dots> = cs ! k" using 4 i by simp
    finally have "?r ! (k - 1) = cs ! k" .
    moreover have "k - 1 < num - 1" using 4 k by simp
    ultimately show ?thesis using subset_refl by metis
  qed
qed

lemma merge_cohorts_covered:
  "merge_cohorts cs num i = (cs', num') \<Longrightarrow> num \<le> length cs \<Longrightarrow> covered m cs num
     \<Longrightarrow> covered m cs' num'"
proof (induction cs num i rule: merge_cohorts.induct)
  case (1 cs num i)
  note unf = merge_cohorts.simps [of cs num i]
  show ?case
  proof (cases "i + 1 < num")
    case False
    with "1.prems" unf show ?thesis by simp
  next
    case True
    show ?thesis
    proof (cases "first_overlap cs i [i + 1..<num]")
      case None
      with "1.prems" unf True have m: "merge_cohorts cs num (i + 1) = (cs', num')" by simp
      from "1.IH"(1) [OF True None m "1.prems"(2,3)] show ?thesis .
    next
      case (Some j)
      let ?r = "fill_hole [j + 1..<num] (cs[i := cpumask_or (cs ! i) (cs ! j)])"
      from "1.prems" unf True Some have m: "merge_cohorts ?r (num - 1) 0 = (cs', num')" by simp
      from first_overlap_Some [OF Some] have ij: "i < j" "j < num" by simp_all
      from "1.prems"(3) obtain k where k: "k < num" "cpumask_subset m (cs ! k)"
        unfolding covered_def by blast
      from merge_step_covered [OF ij "1.prems"(2) k(1)] obtain k' where
        "k' < num - 1" "cpumask_subset (cs ! k) (?r ! k')" by blast
      with k(2) have c: "covered m ?r (num - 1)"
        unfolding covered_def using subset_trans by blast
      have l: "num - 1 \<le> length ?r" using "1.prems"(2) by simp
      from "1.IH"(2) [OF True Some m l c] show ?thesis .
    qed
  qed
qed


lemma update_cohorts_scan_props:
  assumes "update_cohorts_scan m ns cs = (cs1, b)" and "\<forall>n \<in> set ns. n < length cs"
  shows "length cs1 = length cs"
    and "\<forall>k. k < length cs \<longrightarrow> cpumask_subset (cs ! k) (cs1 ! k)"
    and "b \<Longrightarrow> \<exists>n \<in> set ns. cpumask_subset m (cs1 ! n)"
    and "\<not> b \<Longrightarrow> cs1 = cs"
  using assms
proof (induction ns)
  case Nil
  { case 1 then show ?case by simp }
  { case 2 then show ?case by (simp add: subset_refl) }
  { case 3 then show ?case by simp }
  { case 4 then show ?case by simp }
next
  case (Cons n ns)
  { case 1
    then show ?case using Cons.IH(1) by (auto split: if_splits) }
  { case 2
    then show ?case using Cons.IH(2)
      by (auto simp: nth_list_update subset_refl subset_or1 split: if_splits) }
  { case 3
    then show ?case using Cons.IH(3)
      by (auto simp: subset_or2 split: if_splits) }
  { case 4
    then show ?case using Cons.IH(4) by (auto split: if_splits) }
qed

lemma covered_mono:
  assumes "covered m cs num" and "num \<le> length cs"
    and "\<forall>k. k < length cs \<longrightarrow> cpumask_subset (cs ! k) (cs1 ! k)" and "num \<le> num1"
  shows "covered m cs1 num1"
proof -
  from assms(1) obtain k where k: "k < num" "cpumask_subset m (cs ! k)"
    unfolding covered_def by blast
  with assms(2,3) have "cpumask_subset (cs ! k) (cs1 ! k)" by simp
  with k have "cpumask_subset m (cs1 ! k)" using subset_trans by blast
  with k(1) assms(4) show ?thesis unfolding covered_def by (meson less_le_trans)
qed

lemma update_cohorts_props:
  assumes u: "update_cohorts di cs num = Inr (cs', num')"
  shows "num' \<le> length cs'"
    and "cohorts_disjoint cs' num'"
    and "covered (cpumask di) cs' num'"
    and "covered m cs num \<Longrightarrow> covered m cs' num'"
proof -
  from u have n: "num \<le> length cs" by (auto simp: update_cohorts_def split: if_splits)
  obtain cs1 b where sc: "update_cohorts_scan (cpumask di) [0..<num] cs = (cs1, b)"
    by (cases "update_cohorts_scan (cpumask di) [0..<num] cs")
  have rng: "\<forall>k \<in> set [0..<num]. k < length cs" using n by simp
  note sp = update_cohorts_scan_props [OF sc rng]
  define cs2 where "cs2 = (if b then cs1 else cs1[num := cpumask_or (cs1 ! num) (cpumask di)])"
  define num2 where "num2 = (if b then num else num + 1)"
  have lt: "\<not> b \<Longrightarrow> num < length cs1"
    using u sc by (auto simp: update_cohorts_def split: if_splits)
  have m: "merge_cohorts cs2 num2 0 = (cs', num')"
    using u sc n by (auto simp: update_cohorts_def cs2_def num2_def split: if_splits)
  have l2: "num2 \<le> length cs2"
    using n sp(1) lt by (auto simp: cs2_def num2_def)
  from length_merge_cohorts [OF m] l2 show "num' \<le> length cs'" by simp
  have "scanned cs2 num2 0" by (simp add: scanned_def)
  from merge_cohorts_disjoint [OF m this] show "cohorts_disjoint cs' num'" .
  have mono2: "\<forall>k. k < length cs \<longrightarrow> cpumask_subset (cs ! k) (cs2 ! k)"
  proof (intro allI impI)
    fix k assume k: "k < length cs"
    with sp(2) have a: "cpumask_subset (cs ! k) (cs1 ! k)" by simp
    show "cpumask_subset (cs ! k) (cs2 ! k)"
    proof (cases "\<not> b \<and> k = num")
      case True
      then have "cs2 ! k = cpumask_or (cs1 ! k) (cpumask di)"
        using lt by (simp add: cs2_def)
      with a show ?thesis using subset_or1 subset_trans by metis
    next
      case False
      then have "cs2 ! k = cs1 ! k" by (auto simp: cs2_def)
      with a show ?thesis by simp
    qed
  qed
  have cnew: "covered (cpumask di) cs2 num2"
  proof (cases b)
    case True
    from sp(3) [OF True] obtain k where "k < num" "cpumask_subset (cpumask di) (cs1 ! k)"
      by auto
    with True show ?thesis unfolding covered_def cs2_def num2_def by auto
  next
    case False
    then have "cs2 ! num = cpumask_or (cs1 ! num) (cpumask di)"
      using lt by (simp add: cs2_def)
    then have "cpumask_subset (cpumask di) (cs2 ! num)" by (simp add: subset_or2)
    with False show ?thesis unfolding covered_def num2_def by auto
  qed
  from merge_cohorts_covered [OF m l2 cnew] show "covered (cpumask di) cs' num'" .
  assume "covered m cs num"
  from covered_mono [OF this n mono2, of num2] have "covered m cs2 num2"
    by (simp add: num2_def)
  from merge_cohorts_covered [OF m l2 this] show "covered m cs' num'" .
qed

lemma update_cohorts_all_props:
  "update_cohorts_all dis cs num = Inr (cs', num') \<Longrightarrow>
     (cohorts_disjoint cs num \<longrightarrow> cohorts_disjoint cs' num')
     \<and> (\<forall>m. covered m cs num \<longrightarrow> covered m cs' num')
     \<and> (\<forall>d \<in> set dis. covered (cpumask d) cs' num')"
proof (induction dis arbitrary: cs num)
  case Nil
  then show ?case by simp
next
  case (Cons di dis)
  from Cons.prems obtain cs1 num1 where
    u: "update_cohorts di cs num = Inr (cs1, num1)"
    and r: "update_cohorts_all dis cs1 num1 = Inr (cs', num')"
    by (auto split: sum.splits)
  note p = update_cohorts_props [OF u]
  note ih = Cons.IH [OF r]
  show ?case using p(2) p(3) p(4) ih by auto
qed

lemma find_cohort_Some:
  "\<exists>n \<in> set ns. cpumask_subset m (cs ! n) \<Longrightarrow>
     \<exists>k \<in> set ns. find_cohort m cs ns = Some k \<and> cpumask_subset m (cs ! k)"
  by (induction ns) auto

lemma covered_unique:
  assumes d: "cohorts_disjoint cs num" and ne: "m \<noteq> 0"
    and k1: "k1 < num" "cpumask_subset m (cs ! k1)"
    and k2: "k2 < num" "cpumask_subset m (cs ! k2)"
  shows "k1 = k2"
proof (rule ccontr)
  assume neq: "k1 \<noteq> k2"
  from ne obtain c where c: "bit m c" by (auto simp: bit_eq_iff)
  with k1(2) k2(2) have "bit (cs ! k1) c" "bit (cs ! k2) c" by (auto simp: subset_iff_bits)
  then have "cpumask_intersects (cs ! k1) (cs ! k2)" by (auto simp: intersects_iff_bits)
  with d k1(1) k2(1) neq show False unfolding cohorts_disjoint_def by blast
qed


text \<open>
  Claim C8.  After every domain of the list has gone through \<^verbatim>\<open>__update_cohorts\<close>, starting
  from no cohort and from any content of the array: two different cohorts do not
  intersect, so every CPU is in at most one cohort; and the mask of every domain, which
  is not empty since an admitted domain owns at least one CPU, is contained in exactly one
  cohort, the one that \<^verbatim>\<open>__set_cohort_in_domain\<close> finds without hitting its \<^verbatim>\<open>BUG_ON\<close>.
\<close>

theorem update_cohorts_all_partition:
  assumes run: "update_cohorts_all dis cs0 0 = Inr (cs, num)"
    and ne: "\<forall>d \<in> set dis. cpumask d \<noteq> 0"
  shows "(\<forall>i j. i < num \<and> j < num \<and> i \<noteq> j \<longrightarrow> \<not> cpumask_intersects (cs ! i) (cs ! j))
       \<and> (\<forall>c i j. i < num \<and> j < num \<and> bit (cs ! i) c \<and> bit (cs ! j) c \<longrightarrow> i = j)
       \<and> (\<forall>d \<in> set dis. \<exists>!k. k < num \<and> cpumask_subset (cpumask d) (cs ! k))
       \<and> (\<forall>d \<in> set dis. \<exists>k. k < num \<and> cpumask_subset (cpumask d) (cs ! k)
              \<and> set_cohort_in_domain d cs num = Inr (d\<lparr>cohort := int k\<rparr>))"
proof -
  have "cohorts_disjoint cs0 0" by (simp add: cohorts_disjoint_def)
  with update_cohorts_all_props [OF run] have
    dj: "cohorts_disjoint cs num" and cv: "\<forall>d \<in> set dis. covered (cpumask d) cs num"
    by blast+
  have 1: "\<forall>i j. i < num \<and> j < num \<and> i \<noteq> j \<longrightarrow> \<not> cpumask_intersects (cs ! i) (cs ! j)"
    using dj unfolding cohorts_disjoint_def .
  have 2: "\<forall>c i j. i < num \<and> j < num \<and> bit (cs ! i) c \<and> bit (cs ! j) c \<longrightarrow> i = j"
    using 1 unfolding intersects_iff_bits by blast
  have 3: "\<forall>d \<in> set dis. \<exists>!k. k < num \<and> cpumask_subset (cpumask d) (cs ! k)"
  proof
    fix d assume d: "d \<in> set dis"
    with cv obtain k where k: "k < num" "cpumask_subset (cpumask d) (cs ! k)"
      unfolding covered_def by blast
    from d ne have "cpumask d \<noteq> 0" by blast
    from covered_unique [OF dj this] k
    show "\<exists>!k. k < num \<and> cpumask_subset (cpumask d) (cs ! k)" by blast
  qed
  have 4: "\<forall>d \<in> set dis. \<exists>k. k < num \<and> cpumask_subset (cpumask d) (cs ! k)
              \<and> set_cohort_in_domain d cs num = Inr (d\<lparr>cohort := int k\<rparr>)"
  proof
    fix d assume d: "d \<in> set dis"
    with cv obtain n where "n < num" "cpumask_subset (cpumask d) (cs ! n)"
      unfolding covered_def by blast
    then have "\<exists>n \<in> set [0..<num]. cpumask_subset (cpumask d) (cs ! n)"
      by (intro bexI [of _ n]) simp_all
    from find_cohort_Some [OF this] obtain k where
      "k \<in> set [0..<num]" "find_cohort (cpumask d) cs [0..<num] = Some k"
      "cpumask_subset (cpumask d) (cs ! k)" by blast
    then show "\<exists>k. k < num \<and> cpumask_subset (cpumask d) (cs ! k)
              \<and> set_cohort_in_domain d cs num = Inr (d\<lparr>cohort := int k\<rparr>)"
      by (auto simp: set_cohort_in_domain_def)
  qed
  from 1 2 3 4 show ?thesis by blast
qed


text \<open>
  Four CPUs and three domains, on CPUs 0-1, 1-2 and 3: the first two share CPU 1 and end
  up in one cohort, the third in another.
\<close>

theorem update_cohorts_all_partition_witness:
  "\<not> isl (update_cohorts_all [ex_dom_info 1 3, ex_dom_info 2 6, ex_dom_info 3 8]
            [0, 0, 0, 0] 0)
   \<and> cpumask (ex_dom_info 1 3) \<noteq> 0 \<and> cpumask (ex_dom_info 2 6) \<noteq> 0
   \<and> cpumask (ex_dom_info 3 8) \<noteq> 0
   \<and> projr (update_cohorts_all [ex_dom_info 1 3, ex_dom_info 2 6, ex_dom_info 3 8]
              [0, 0, 0, 0] 0) = ([7, 8, 0, 0], 2)
   \<and> \<not> cpumask_intersects (7 :: 4 word) 8
   \<and> set_cohort_in_domain (ex_dom_info 3 8) [7, 8, 0, 0] 2
       = Inr ((ex_dom_info 3 8)\<lparr>cohort := 1\<rparr>)"
proof -
  let ?dis = "[ex_dom_info 1 3, ex_dom_info 2 6, ex_dom_info 3 8]"
  let ?R = "update_cohorts_all ?dis [0, 0, 0, 0] 0"
  have ok: "\<not> isl ?R" by code_simp
  have ne: "cpumask (ex_dom_info 1 3) \<noteq> 0" "cpumask (ex_dom_info 2 6) \<noteq> 0"
    "cpumask (ex_dom_info 3 8) \<noteq> 0" by (simp_all add: ex_dom_info_def)
  have v: "projr ?R = ([7, 8, 0, 0], 2)" by code_simp
  have sc: "set_cohort_in_domain (ex_dom_info 3 8) [7, 8, 0, 0] 2
              = Inr ((ex_dom_info 3 8)\<lparr>cohort := 1\<rparr>)" by code_simp
  from ok v have run: "?R = Inr ([7, 8, 0, 0], 2)" by (cases ?R) auto
  have "\<forall>d \<in> set ?dis. cpumask d \<noteq> 0" using ne by simp
  from update_cohorts_all_partition [OF run this]
  have "\<forall>i j. i < 2 \<and> j < 2 \<and> i \<noteq> j
          \<longrightarrow> \<not> cpumask_intersects ([7, 8, 0, 0 :: 4 word] ! i) ([7, 8, 0, 0] ! j)"
    by blast
  from this [rule_format, of 0 1] have "\<not> cpumask_intersects (7 :: 4 word) 8" by simp
  with ok ne v sc show ?thesis by blast
qed


section \<open>The schedulability test\<close>

lemma are_schedulable_test0:
  "are_schedulable rat_ops False
     [Some \<lparr>domid = 1, cpus = [0, 1], num_of_cpus = 2,
            gang_sched_policy = GANG_TIME_TRIG_MUXING
              \<lparr>tt_from = 0, tt_period = 100, tt_active_time = 50, tt_space_filling = 0\<rparr>\<rparr>]
     10 100 2 = Inr (0, [])"
  by (simp add: are_schedulable_def rat_ops_def TOOL_INFINITY_def word_sless_alt word_sle_eq
      Let_def upt_rec)

lemma are_schedulable_aborts_on_zero_reserve:
  "are_schedulable rat_ops False
     [Some \<lparr>domid = 1, cpus = [0], num_of_cpus = 1,
            gang_sched_policy = GANG_BEST_EFFORT_MUXING
              \<lparr>be_from = 0, be_weight = 1, be_space_filling = 0\<rparr>\<rparr>]
     0 100 1 = Inl ASSERT_FAILED"
  by (simp add: are_schedulable_def rat_ops_def TOOL_INFINITY_def word_sless_alt word_sle_eq
      Let_def upt_rec)

text \<open>
  C2.  The schedulability test reports pass or fail for domain infos that pass the input
  validation.  Here the code is run on one domain without CPUs (\<^verbatim>\<open>num_of_cpus = 0\<close>)
  and a valid policy, on one CPU with a reserve of 10 percent.  \<^verbatim>\<open>__validate_dominfos\<close>
  accepts the domain, since it refuses a negative count only; the utilisation of the one
  CPU is zero; and the test does not report: \<^verbatim>\<open>assert(di->num_of_cpus > 0)\<close> in
  \<^verbatim>\<open>__populate_cpu2dom\<close> fails, whatever the arithmetic of doubles is.
\<close>

theorem are_schedulable_aborts_on_domain_without_cpus:
  "are_schedulable ops False
     [Some \<lparr>domid = 0, cpus = [], num_of_cpus = 0,
            gang_sched_policy = GANG_NO_MUXING \<lparr>no_from = 0\<rparr>\<rparr>]
     10 100 1 = Inl ASSERT_FAILED"
  by (simp add: are_schedulable_def TOOL_INFINITY_def word_sless_alt word_sle_eq)

theorem are_schedulable_aborts_on_domain_without_cpus_witness:
  "are_schedulable rat_ops False
     [Some \<lparr>domid = 0, cpus = [], num_of_cpus = 0,
            gang_sched_policy = GANG_NO_MUXING \<lparr>no_from = 0\<rparr>\<rparr>]
     10 100 1 = Inl ASSERT_FAILED"
  by (rule are_schedulable_aborts_on_domain_without_cpus)


section \<open>The global adjustment: what \<^verbatim>\<open>getinfo\<close> returns after \<^verbatim>\<open>putinfo\<close>\<close>

lemma find_dom_info_Some:
  assumes "find_dom_info e infos len = Some j"
  shows "j < len" "sint (dom_entry_domid e) = uint (domain_id (snd (infos ! j)))"
  using assms unfolding find_dom_info_def get_domid_from_dom_info_def
  by (auto simp: find_Some_iff)

lemma update_domain_infos_loop_length:
  "update_domain_infos_loop infos len es = Inr infos' \<Longrightarrow> length infos' = length infos"
  by (induction es arbitrary: infos) (auto split: option.splits)

lemma update_domain_infos_loop_ids:
  "update_domain_infos_loop infos len es = Inr infos' \<Longrightarrow>
     map fst infos' = map fst infos
     \<and> map (\<lambda>x. domain_id (snd x)) infos' = map (\<lambda>x. domain_id (snd x)) infos"
proof (induction es arbitrary: infos)
  case Nil
  then show ?case by simp
next
  case (Cons e es)
  from Cons.prems obtain j where j: "find_dom_info e infos len = Some j"
    by (auto split: option.splits)
  let ?infos1 = "infos[j := (fst (infos ! j),
                         (snd (infos ! j))
                           \<lparr>cpumask := dom_entry_cpumap e,
                            tm_muxing_spec := dom_entry_gang_sched_policy e\<rparr>)]"
  from Cons.prems j have run: "update_domain_infos_loop ?infos1 len es = Inr infos'" by simp
  have "map fst ?infos1 = map fst infos"
    by (cases "j < length infos") (auto simp: list_eq_iff_nth_eq nth_list_update)
  moreover have "map (\<lambda>x. domain_id (snd x)) ?infos1 = map (\<lambda>x. domain_id (snd x)) infos"
    by (cases "j < length infos") (auto simp: list_eq_iff_nth_eq nth_list_update)
  ultimately show ?case using Cons.IH [OF run] by simp
qed

lemma update_domain_infos_loop_unnamed:
  assumes "update_domain_infos_loop infos len es = Inr infos'"
    and "j < length infos"
    and "\<forall>e \<in> set es. sint (dom_entry_domid e) \<noteq> uint (domain_id (snd (infos ! j)))"
  shows "infos' ! j = infos ! j"
  using assms
proof (induction es arbitrary: infos)
  case Nil
  then show ?case by simp
next
  case (Cons e es)
  from Cons.prems(1) obtain k where k: "find_dom_info e infos len = Some k"
    by (auto split: option.splits)
  let ?infos1 = "infos[k := (fst (infos ! k),
                         (snd (infos ! k))
                           \<lparr>cpumask := dom_entry_cpumap e,
                            tm_muxing_spec := dom_entry_gang_sched_policy e\<rparr>)]"
  from Cons.prems(1) k have run: "update_domain_infos_loop ?infos1 len es = Inr infos'" by simp
  from find_dom_info_Some(2) [OF k] Cons.prems(3) have kj: "k \<noteq> j" by auto
  then have same: "?infos1 ! j = infos ! j" by simp
  have "infos' ! j = ?infos1 ! j"
    by (rule Cons.IH [OF run]) (use Cons.prems same in auto)
  with same show ?case by simp
qed

lemma update_domain_infos_loop_named:
  assumes "update_domain_infos_loop infos len es = Inr infos'"
    and "len \<le> length infos"
    and "distinct (map dom_entry_domid es)"
    and "e \<in> set es"
  shows "\<exists>j<len. sint (dom_entry_domid e) = uint (domain_id (snd (infos' ! j)))
           \<and> cpumask (snd (infos' ! j)) = dom_entry_cpumap e
           \<and> tm_muxing_spec (snd (infos' ! j)) = dom_entry_gang_sched_policy e"
  using assms
proof (induction es arbitrary: infos)
  case Nil
  then show ?case by simp
next
  case (Cons e' es)
  from Cons.prems(1) obtain k where k: "find_dom_info e' infos len = Some k"
    by (auto split: option.splits)
  let ?infos1 = "infos[k := (fst (infos ! k),
                         (snd (infos ! k))
                           \<lparr>cpumask := dom_entry_cpumap e',
                            tm_muxing_spec := dom_entry_gang_sched_policy e'\<rparr>)]"
  from Cons.prems(1) k have run: "update_domain_infos_loop ?infos1 len es = Inr infos'" by simp
  have len1: "len \<le> length ?infos1" using Cons.prems(2) by simp
  have d: "distinct (map dom_entry_domid es)" using Cons.prems(3) by simp
  show ?case
  proof (cases "e \<in> set es")
    case True
    from Cons.IH [OF run len1 d True] show ?thesis .
  next
    case False
    with Cons.prems(4) have e: "e = e'" by simp
    note kk = find_dom_info_Some [OF k]
    from kk(1) Cons.prems(2) have kl: "k < length infos" by simp
    have id1: "domain_id (snd (?infos1 ! k)) = domain_id (snd (infos ! k))"
      using kl by simp
    have "\<forall>x \<in> set es. sint (dom_entry_domid x) \<noteq> uint (domain_id (snd (?infos1 ! k)))"
    proof
      fix x assume x: "x \<in> set es"
      with Cons.prems(3) have "dom_entry_domid x \<noteq> dom_entry_domid e'"
        by (metis distinct.simps(2) image_eqI list.simps(9) set_map)
      then have "sint (dom_entry_domid x) \<noteq> sint (dom_entry_domid e')"
        by (metis signed_word_eqI)
      with kk(2) id1 show "sint (dom_entry_domid x) \<noteq> uint (domain_id (snd (?infos1 ! k)))"
        by simp
    qed
    from update_domain_infos_loop_unnamed [OF run _ this] kl
    have "infos' ! k = ?infos1 ! k" by simp
    with kl kk e show ?thesis by (intro exI [of _ k]) simp
  qed
qed

lemma sort_domain_infos_loop_set:
  "sort_domain_infos_loop infos arr i = Inr arr' \<Longrightarrow> set arr' = set arr"
proof (induction infos arr i rule: sort_domain_infos_loop.induct)
  case (1 infos arr i)
  note unf = sort_domain_infos_loop.simps [of infos arr i]
  show ?case
  proof (cases "int i = int (length arr) - 1")
    case True
    with "1.prems" unf show ?thesis by simp
  next
    case False
    show ?thesis
    proof (cases "length arr \<le> i + 1")
      case True
      with False "1.prems" unf show ?thesis by simp
    next
      case nb: False
      show ?thesis
      proof (cases "sort_key infos (arr ! (i + 1)) < sort_key infos (arr ! i)")
        case True
        with False nb "1.prems" unf
        have run: "sort_domain_infos_loop infos (arr[i := arr ! (i + 1), i + 1 := arr ! i]) 0
                     = Inr arr'" by simp
        from "1.IH"(1) [OF False nb True run]
        have "set arr' = set (arr[i := arr ! (i + 1), i + 1 := arr ! i])" .
        also have "\<dots> = set arr"
          using nb by (simp add: set_swap)
        finally show ?thesis .
      next
        case nlt: False
        with False nb "1.prems" unf
        have run: "sort_domain_infos_loop infos arr (i + 1) = Inr arr'" by simp
        from "1.IH"(2) [OF False nb nlt run] show ?thesis .
      qed
    qed
  qed
qed

lemma sort_domain_infos_set:
  assumes "sort_domain_infos infos [0..<n] = Inr arr"
  shows "set arr = {0..<n}"
proof -
  from assms have "set arr = set [0..<n]"
    unfolding sort_domain_infos_def by (rule sort_domain_infos_loop_set)
  then show ?thesis by simp
qed

lemma add_dom_to_muxgroups_step_core:
  assumes "add_dom_to_muxgroups_step c (di, rest) = Inr (di', rest')"
  shows "core_eq di' di"
  using assms unfolding add_dom_to_muxgroups_step_def core_eq_def
  by (cases rest) (auto simp: Let_def split: if_splits)

lemma add_dom_to_muxgroups_loop_core:
  "add_dom_to_muxgroups_loop cs (di, rest) = Inr (di', rest') \<Longrightarrow> core_eq di' di"
proof (induction cs arbitrary: di rest)
  case Nil
  then show ?case by (simp add: core_eq_def)
next
  case (Cons c cs)
  from Cons.prems obtain di1 rest1 where
    s: "add_dom_to_muxgroups_step c (di, rest) = Inr (di1, rest1)"
    and l: "add_dom_to_muxgroups_loop cs (di1, rest1) = Inr (di', rest')"
    by (auto split: sum.splits)
  from add_dom_to_muxgroups_step_core [OF s] Cons.IH [OF l]
  show ?case by (simp add: core_eq_def)
qed

lemma add_dom_to_muxgroups_core:
  assumes "add_dom_to_muxgroups di mx = Inr (di', mx')"
  shows "core_eq di' di"
  using assms unfolding add_dom_to_muxgroups_def
  by (auto split: prod.splits sum.splits dest: add_dom_to_muxgroups_loop_core)

lemma update_core:
  assumes "core_eq di (snd (infos ! p))"
  shows "map core (infos[p := (fst (infos ! p), di)]) = map core infos"
  using assms
  by (cases "p < length infos")
     (auto simp: list_eq_iff_nth_eq nth_list_update core_def core_eq_def)

lemma populate_loop_core:
  "populate_loop ps infos mx cs num = Inr (infos', r) \<Longrightarrow> map core infos' = map core infos"
proof (induction ps arbitrary: infos mx cs num)
  case Nil
  then show ?case by simp
next
  case (Cons p ps)
  from Cons.prems obtain di mx' cs' num' where
    a: "add_dom_to_muxgroups (snd (infos ! p)) mx = Inr (di, mx')"
    and l: "populate_loop ps (infos[p := (fst (infos ! p), di)]) mx' cs' num' = Inr (infos', r)"
    by (auto split: sum.splits prod.splits)
  from Cons.IH [OF l] update_core [OF add_dom_to_muxgroups_core [OF a]]
  show ?case by simp
qed

lemma set_cohort_loop_core:
  "set_cohort_loop ps infos cs num = Inr infos' \<Longrightarrow> map core infos' = map core infos"
proof (induction ps arbitrary: infos)
  case Nil
  then show ?case by simp
next
  case (Cons p ps)
  from Cons.prems obtain di where
    a: "set_cohort_in_domain (snd (infos ! p)) cs num = Inr di"
    and l: "set_cohort_loop ps (infos[p := (fst (infos ! p), di)]) cs num = Inr infos'"
    by (auto split: sum.splits)
  from a have "core_eq di (snd (infos ! p))"
    unfolding set_cohort_in_domain_def core_eq_def by (auto split: option.splits)
  from Cons.IH [OF l] update_core [OF this] show ?case by simp
qed

lemma populate_cohorts_and_muxgroups_core:
  assumes "populate_cohorts_and_muxgroups arr infos = Inr infos'"
  shows "map core infos' = map core infos"
  using assms unfolding populate_cohorts_and_muxgroups_def
  by (auto split: sum.splits prod.splits if_splits
           dest!: populate_loop_core set_cohort_loop_core)


lemma duplicate_domids_iff: "duplicate_domids ds \<longleftrightarrow> \<not> distinct ds"
  by (induction ds) auto

lemma write_dom_info_length: "length (write_dom_info w ds) = length ds"
  by (cases w) (simp add: write_dom_info_def)

lemma fold_write_length:
  "length (fold (\<lambda>p. write_dom_info (infos ! p)) arr ds) = length ds"
  by (induction arr arbitrary: ds) (simp_all add: write_dom_info_length)

lemma write_dom_info_frame:
  "dom_cpupool_id (write_dom_info w ds ! i) = dom_cpupool_id (ds ! i)
   \<and> domain_id (dom_sched_info (write_dom_info w ds ! i)) = domain_id (dom_sched_info (ds ! i))"
  by (cases w; cases "fst w < length ds")
     (auto simp: write_dom_info_def nth_list_update list_update_beyond not_less)

lemma fold_write_frame:
  "dom_cpupool_id (fold (\<lambda>p. write_dom_info (infos ! p)) arr ds ! i) = dom_cpupool_id (ds ! i)
   \<and> domain_id (dom_sched_info (fold (\<lambda>p. write_dom_info (infos ! p)) arr ds ! i))
       = domain_id (dom_sched_info (ds ! i))"
  by (induction arr arbitrary: ds) (simp_all add: write_dom_info_frame)

lemma fold_write_untouched:
  "\<forall>p \<in> set arr. fst (infos ! p) \<noteq> i \<Longrightarrow>
     fold (\<lambda>p. write_dom_info (infos ! p)) arr ds ! i = ds ! i"
proof (induction arr arbitrary: ds)
  case Nil
  then show ?case by simp
next
  case (Cons p ps)
  then have "fold (\<lambda>p. write_dom_info (infos ! p)) ps (write_dom_info (infos ! p) ds) ! i
               = write_dom_info (infos ! p) ds ! i" by simp
  moreover have "write_dom_info (infos ! p) ds ! i = ds ! i"
    using Cons.prems by (cases "infos ! p") (auto simp: write_dom_info_def)
  ultimately show ?case by simp
qed

lemma fold_write_target:
  assumes "\<forall>p \<in> set arr. \<forall>p' \<in> set arr. fst (infos ! p) = fst (infos ! p') \<longrightarrow> p = p'"
    and "k \<in> set arr"
    and "fst (infos ! k) < length ds"
  shows "cpumask (dom_sched_info (fold (\<lambda>p. write_dom_info (infos ! p)) arr ds ! fst (infos ! k)))
           = cpumask (snd (infos ! k))
       \<and> tm_muxing_spec
           (dom_sched_info (fold (\<lambda>p. write_dom_info (infos ! p)) arr ds ! fst (infos ! k)))
           = tm_muxing_spec (snd (infos ! k))"
  using assms
proof (induction arr arbitrary: ds)
  case Nil
  then show ?case by simp
next
  case (Cons p ps)
  let ?ds1 = "write_dom_info (infos ! p) ds"
  have len: "fst (infos ! k) < length ?ds1"
    using Cons.prems(3) by (simp add: write_dom_info_length)
  show ?case
  proof (cases "k \<in> set ps")
    case True
    have "\<forall>p \<in> set ps. \<forall>p' \<in> set ps. fst (infos ! p) = fst (infos ! p') \<longrightarrow> p = p'"
      using Cons.prems(1) by simp
    from Cons.IH [OF this True len] show ?thesis by simp
  next
    case False
    with Cons.prems(2) have kp: "k = p" by simp
    have "\<forall>q \<in> set ps. fst (infos ! q) \<noteq> fst (infos ! k)"
    proof
      fix q assume q: "q \<in> set ps"
      show "fst (infos ! q) \<noteq> fst (infos ! k)"
      proof
        assume "fst (infos ! q) = fst (infos ! k)"
        with Cons.prems(1) q kp have "q = k" by simp
        with q False show False by simp
      qed
    qed
    from fold_write_untouched [OF this]
    have "fold (\<lambda>p. write_dom_info (infos ! p)) ps ?ds1 ! fst (infos ! k)
            = ?ds1 ! fst (infos ! k)" .
    moreover have "cpumask (dom_sched_info (?ds1 ! fst (infos ! k))) = cpumask (snd (infos ! k))
       \<and> tm_muxing_spec (dom_sched_info (?ds1 ! fst (infos ! k)))
           = tm_muxing_spec (snd (infos ! k))"
      using Cons.prems(3) unfolding kp
      by (cases "infos ! p") (simp add: write_dom_info_def)
    ultimately show ?thesis by simp
  qed
qed

lemma for_each_domain_in_cpupool_props:
  "distinct (for_each_domain_in_cpupool h pool)"
  "d \<in> set (for_each_domain_in_cpupool h pool) \<Longrightarrow> d < length (domain_list h)"
  by (simp_all add: for_each_domain_in_cpupool_def)

lemma get_all_domain_infos_Inr:
  assumes "get_all_domain_infos h (max_domains h) pool = Inr (infos, n)"
    and "n \<le> max_domains h"
  shows "n = length (for_each_domain_in_cpupool h pool)"
    and "infos = map (\<lambda>d. (d, (dom_sched_info (domain_list h ! d))
                                 \<lparr>cohort := - 1, muxgroup_mask := 0\<rparr>))
                   (for_each_domain_in_cpupool h pool)"
  using assms unfolding get_all_domain_infos_def by (auto simp: Let_def)

lemma dom_entry_of_snap [simp]:
  "dom_entry_of (di\<lparr>cohort := c, muxgroup_mask := m\<rparr>) = dom_entry_of di"
  by (simp add: dom_entry_of_def get_domid_from_dom_info_def)

lemma putinfo_ok:
  assumes "putinfo us h pool p = Inr (0, h')"
  obtains infos0 n infos1 arr infos2 where
    "caller_is_dom0 h" "caller_in_cpupool0 h"
    "\<not> cpumask_test_cpu (this_cpu h) (cpu_valid h pool)"
    "\<not> duplicate_domids (map dom_entry_domid (take (unat (num_dom_entries p)) (dom_entries p)))"
    "get_all_domain_infos h (max_domains h) pool = Inr (infos0, n)" "n \<le> max_domains h"
    "update_domain_infos infos0 n p = Inr infos1"
    "sort_domain_infos infos1 [0..<n] = Inr arr"
    "populate_cohorts_and_muxgroups arr infos1 = Inr infos2"
    "h' = update_local_sched_v0_dom_infos arr infos2 h"
  using assms unfolding putinfo_def validate_resource_allocation_def
  by (auto simp: Let_def EINVAL_def EPERM_def split: if_splits sum.splits prod.splits)


lemma putinfo_then_getinfo:
  assumes put: "putinfo us h pool p = Inr (0, h')"
    and len: "max_domains h \<le> length (dom_entries q)"
  defines "n \<equiv> length (for_each_domain_in_cpupool h pool)"
    and "es \<equiv> take (unat (num_dom_entries p)) (dom_entries p)"
  shows "\<exists>infos0 infos1.
           length infos0 = n \<and> distinct (map dom_entry_domid es)
         \<and> (\<forall>k<n. domain_id (snd (infos0 ! k))
                      = domain_id (dom_sched_info
                          (domain_list h ! (for_each_domain_in_cpupool h pool ! k))))
         \<and> update_domain_infos_loop infos0 n es = Inr infos1
         \<and> getinfo h pool q
             = Inr (0, q\<lparr>num_dom_entries := of_nat n,
                         dom_entries := map (\<lambda>x. dom_entry_of (snd x)) infos0
                                          @ drop n (dom_entries q)\<rparr>)
         \<and> getinfo h' pool q
             = Inr (0, q\<lparr>num_dom_entries := of_nat n,
                         dom_entries := map (\<lambda>x. dom_entry_of (snd x)) infos1
                                          @ drop n (dom_entries q)\<rparr>)"
proof -
  let ?P = "for_each_domain_in_cpupool h pool"
  let ?ds = "domain_list h"
  from putinfo_ok [OF put] obtain infos0 m infos1 arr infos2 where
    dom0: "caller_is_dom0 h" and pool0: "caller_in_cpupool0 h"
    and cpu: "\<not> cpumask_test_cpu (this_cpu h) (cpu_valid h pool)"
    and nodup: "\<not> duplicate_domids (map dom_entry_domid es)"
    and snap: "get_all_domain_infos h (max_domains h) pool = Inr (infos0, m)"
    and mmax: "m \<le> max_domains h"
    and upd: "update_domain_infos infos0 m p = Inr infos1"
    and srt: "sort_domain_infos infos1 [0..<m] = Inr arr"
    and pop: "populate_cohorts_and_muxgroups arr infos1 = Inr infos2"
    and h': "h' = update_local_sched_v0_dom_infos arr infos2 h"
    unfolding es_def by blast
  note s0 = get_all_domain_infos_Inr [OF snap mmax]
  have mn: "m = n" using s0(1) by (simp add: n_def)
  have l0: "length infos0 = n" using s0(2) by (simp add: n_def)
  have f0: "map fst infos0 = ?P" using s0(2) by (simp add: comp_def)
  have dist: "distinct (map dom_entry_domid es)"
    using nodup by (simp add: duplicate_domids_iff)
  from upd have loop: "update_domain_infos_loop infos0 n es = Inr infos1"
    unfolding update_domain_infos_def es_def mn by (simp split: if_splits)
  note l1 = update_domain_infos_loop_length [OF loop]
  note i1 = update_domain_infos_loop_ids [OF loop]
  note c2 = populate_cohorts_and_muxgroups_core [OF pop]
  from c2 have l2: "length infos2 = length infos1" by (rule map_eq_imp_length_eq)
  have core2: "core (infos2 ! k) = core (infos1 ! k)" if "k < n" for k
  proof -
    from that l1 l0 l2 have "k < length infos2" "k < length infos1" by simp_all
    then have "map core infos2 ! k = core (infos2 ! k)" "map core infos1 ! k = core (infos1 ! k)"
      by simp_all
    with c2 show ?thesis by simp
  qed
  have fst1: "fst (infos1 ! k) = ?P ! k" if "k < n" for k
  proof -
    from that l1 l0 have "map fst infos1 ! k = fst (infos1 ! k)" by simp
    with i1 f0 show ?thesis by simp
  qed
  have id1: "domain_id (snd (infos1 ! k)) = domain_id (dom_sched_info (?ds ! (?P ! k)))"
    if "k < n" for k
  proof -
    from that l1 l0 have "map (\<lambda>x. domain_id (snd x)) infos1 ! k = domain_id (snd (infos1 ! k))"
      by simp
    moreover from that l0
    have "map (\<lambda>x. domain_id (snd x)) infos0 ! k = domain_id (snd (infos0 ! k))" by simp
    moreover from that have "domain_id (snd (infos0 ! k))
        = domain_id (dom_sched_info (?ds ! (?P ! k)))"
      unfolding s0(2) n_def by simp
    ultimately show ?thesis using i1 by simp
  qed
  have sarr: "set arr = {0..<n}" using sort_domain_infos_set [OF srt] mn by simp
  let ?ds' = "fold (\<lambda>p. write_dom_info (infos2 ! p)) arr ?ds"
  have hds: "domain_list h' = ?ds'" and hrest: "cpu_valid h' = cpu_valid h"
    "this_cpu h' = this_cpu h" "caller_is_dom0 h' = caller_is_dom0 h"
    "caller_in_cpupool0 h' = caller_in_cpupool0 h" "max_domains h' = max_domains h"
    unfolding h' update_local_sched_v0_dom_infos_def by simp_all
  have lds: "length ?ds' = length ?ds" by (rule fold_write_length)
  have P': "for_each_domain_in_cpupool h' pool = ?P"
    unfolding for_each_domain_in_cpupool_def hds lds
    by (rule filter_cong) (simp_all add: fold_write_frame)
  have inj: "\<forall>a \<in> set arr. \<forall>b \<in> set arr. fst (infos2 ! a) = fst (infos2 ! b) \<longrightarrow> a = b"
  proof (intro ballI impI)
    fix a b assume a: "a \<in> set arr" and b: "b \<in> set arr"
      and eq: "fst (infos2 ! a) = fst (infos2 ! b)"
    from a b sarr have an: "a < n" and bn: "b < n" by simp_all
    from core2 [OF an] core2 [OF bn] eq fst1 [OF an] fst1 [OF bn]
    have "?P ! a = ?P ! b" by (simp add: core_def)
    with for_each_domain_in_cpupool_props(1) [of h pool] an bn show "a = b"
      by (simp add: nth_eq_iff_index_eq n_def)
  qed
  have entry: "dom_entry_of (dom_sched_info (?ds' ! (?P ! k))) = dom_entry_of (snd (infos1 ! k))"
    if k: "k < n" for k
  proof -
    from k sarr have ka: "k \<in> set arr" by simp
    from core2 [OF k] have c: "fst (infos2 ! k) = fst (infos1 ! k)"
      "cpumask (snd (infos2 ! k)) = cpumask (snd (infos1 ! k))"
      "tm_muxing_spec (snd (infos2 ! k)) = tm_muxing_spec (snd (infos1 ! k))"
      by (simp_all add: core_def)
    from k have "?P ! k \<in> set ?P" by (simp add: n_def)
    then have "?P ! k < length ?ds" by (rule for_each_domain_in_cpupool_props(2))
    with c(1) fst1 [OF k] have tl: "fst (infos2 ! k) < length ?ds" by simp
    from fold_write_target [OF inj ka tl] c fst1 [OF k]
    have "cpumask (dom_sched_info (?ds' ! (?P ! k))) = cpumask (snd (infos1 ! k))"
      "tm_muxing_spec (dom_sched_info (?ds' ! (?P ! k))) = tm_muxing_spec (snd (infos1 ! k))"
      by simp_all
    moreover have "domain_id (dom_sched_info (?ds' ! (?P ! k)))
                     = domain_id (snd (infos1 ! k))"
      using fold_write_frame [of infos2 arr ?ds "?P ! k"] id1 [OF k] by simp
    ultimately show ?thesis
      by (simp add: dom_entry_of_def get_domid_from_dom_info_def)
  qed
  have lq: "n \<le> length (dom_entries q)" using len mmax mn by simp
  have g0: "getinfo h pool q
             = Inr (0, q\<lparr>num_dom_entries := of_nat n,
                         dom_entries := map (\<lambda>x. dom_entry_of (snd x)) infos0
                                          @ drop n (dom_entries q)\<rparr>)"
    unfolding getinfo_def using dom0 pool0 cpu snap mmax lq mn by simp
  have snap': "get_all_domain_infos h' (max_domains h') pool
                 = Inr (map (\<lambda>d. (d, (dom_sched_info (?ds' ! d))
                                        \<lparr>cohort := - 1, muxgroup_mask := 0\<rparr>)) ?P, n)"
    unfolding get_all_domain_infos_def P' hds using mmax mn by (simp add: n_def hrest Let_def)
  have "map (\<lambda>x. dom_entry_of (snd x))
          (map (\<lambda>d. (d, (dom_sched_info (?ds' ! d))\<lparr>cohort := - 1, muxgroup_mask := 0\<rparr>)) ?P)
        = map (\<lambda>x. dom_entry_of (snd x)) infos1"
    using entry l1 l0 by (simp add: list_eq_iff_nth_eq n_def)
  then have g1: "getinfo h' pool q
             = Inr (0, q\<lparr>num_dom_entries := of_nat n,
                         dom_entries := map (\<lambda>x. dom_entry_of (snd x)) infos1
                                          @ drop n (dom_entries q)\<rparr>)"
    unfolding getinfo_def snap' using dom0 pool0 cpu mmax lq mn by (simp add: hrest)
  have id0: "\<forall>k<n. domain_id (snd (infos0 ! k))
                      = domain_id (dom_sched_info (?ds ! (?P ! k)))"
    unfolding s0(2) n_def by simp
  from l0 dist id0 loop g0 g1 show ?thesis by blast
qed


lemma sint_eq_uint_ucast:
  assumes "sint (x :: 32 word) = uint (y :: 16 word)"
  shows "x = ucast y"
proof -
  have "x = word_of_int (sint x)" by simp
  also have "\<dots> = word_of_int (uint y)" using assms by simp
  also have "\<dots> = ucast y" by (rule ucast_eq [symmetric])
  finally show ?thesis .
qed

text \<open>
  Claim C9, amended.  After a \<^verbatim>\<open>putinfo\<close> that returns 0, and with the domain infos written
  back by the designated CPU, \<^verbatim>\<open>getinfo\<close> on the same pool returns 0 and one entry for every
  domain of the pool, in the order of the domain list, with the same domain ids as a
  \<^verbatim>\<open>getinfo\<close> before the call.  Every entry of the request is among them, unchanged; the
  entry of a domain that the request does not name is the one that \<^verbatim>\<open>getinfo\<close> returned
  before.
\<close>

theorem putinfo_getinfo_round_trip:
  assumes put: "putinfo us h pool p = Inr (0, h')"
    and len: "max_domains h \<le> length (dom_entries q)"
  defines "P \<equiv> for_each_domain_in_cpupool h pool"
    and "es \<equiv> take (unat (num_dom_entries p)) (dom_entries p)"
  shows "\<exists>q0 q'.
           getinfo h pool q = Inr (0, q0) \<and> getinfo h' pool q = Inr (0, q')
         \<and> num_dom_entries q' = of_nat (length P)
         \<and> (\<forall>e \<in> set es. e \<in> set (take (length P) (dom_entries q')))
         \<and> (\<forall>k<length P.
                dom_entry_domid (dom_entries q' ! k)
                  = ucast (domain_id (dom_sched_info (domain_list h ! (P ! k))))
              \<and> ((\<forall>e \<in> set es. dom_entry_domid e
                        \<noteq> ucast (domain_id (dom_sched_info (domain_list h ! (P ! k)))))
                   \<longrightarrow> dom_entries q' ! k = dom_entries q0 ! k))"
proof -
  let ?n = "length P"
  from putinfo_then_getinfo [OF put len] obtain infos0 infos1 where
    l0: "length infos0 = ?n" and dist: "distinct (map dom_entry_domid es)"
    and id0: "\<forall>k<?n. domain_id (snd (infos0 ! k))
                      = domain_id (dom_sched_info (domain_list h ! (P ! k)))"
    and loop: "update_domain_infos_loop infos0 ?n es = Inr infos1"
    and g0: "getinfo h pool q
             = Inr (0, q\<lparr>num_dom_entries := of_nat ?n,
                         dom_entries := map (\<lambda>x. dom_entry_of (snd x)) infos0
                                          @ drop ?n (dom_entries q)\<rparr>)"
    and g1: "getinfo h' pool q
             = Inr (0, q\<lparr>num_dom_entries := of_nat ?n,
                         dom_entries := map (\<lambda>x. dom_entry_of (snd x)) infos1
                                          @ drop ?n (dom_entries q)\<rparr>)"
    unfolding P_def es_def by blast
  let ?q0 = "q\<lparr>num_dom_entries := of_nat ?n,
               dom_entries := map (\<lambda>x. dom_entry_of (snd x)) infos0 @ drop ?n (dom_entries q)\<rparr>"
  let ?q' = "q\<lparr>num_dom_entries := of_nat ?n,
               dom_entries := map (\<lambda>x. dom_entry_of (snd x)) infos1 @ drop ?n (dom_entries q)\<rparr>"
  note l1 = update_domain_infos_loop_length [OF loop]
  note i1 = update_domain_infos_loop_ids [OF loop]
  have e0: "dom_entries ?q0 ! k = dom_entry_of (snd (infos0 ! k))" if "k < ?n" for k
    using that l0 by (simp add: nth_append)
  have e1: "dom_entries ?q' ! k = dom_entry_of (snd (infos1 ! k))" if "k < ?n" for k
    using that l0 l1 by (simp add: nth_append)
  have id1: "domain_id (snd (infos1 ! k)) = domain_id (snd (infos0 ! k))" if "k < ?n" for k
  proof -
    from that l1 l0
    have "map (\<lambda>x. domain_id (snd x)) infos1 ! k = domain_id (snd (infos1 ! k))"
      "map (\<lambda>x. domain_id (snd x)) infos0 ! k = domain_id (snd (infos0 ! k))" by simp_all
    with i1 show ?thesis by simp
  qed
  have named: "\<forall>e \<in> set es. e \<in> set (take ?n (dom_entries ?q'))"
  proof
    fix e assume e: "e \<in> set es"
    from update_domain_infos_loop_named [OF loop _ dist e] l0 obtain j where
      j: "j < ?n" and m: "sint (dom_entry_domid e) = uint (domain_id (snd (infos1 ! j)))"
      and c: "cpumask (snd (infos1 ! j)) = dom_entry_cpumap e"
      and t: "tm_muxing_spec (snd (infos1 ! j)) = dom_entry_gang_sched_policy e"
      by auto
    from sint_eq_uint_ucast [OF m] c t have "dom_entry_of (snd (infos1 ! j)) = e"
      by (simp add: dom_entry_of_def get_domid_from_dom_info_def)
    with j l0 l1 have "take ?n (dom_entries ?q') ! j = e"
      by (simp add: nth_append)
    moreover have "j < length (take ?n (dom_entries ?q'))" using j l0 l1 by simp
    ultimately show "e \<in> set (take ?n (dom_entries ?q'))"
      by (metis nth_mem)
  qed
  have rest: "\<forall>k<?n.
                dom_entry_domid (dom_entries ?q' ! k)
                  = ucast (domain_id (dom_sched_info (domain_list h ! (P ! k))))
              \<and> ((\<forall>e \<in> set es. dom_entry_domid e
                        \<noteq> ucast (domain_id (dom_sched_info (domain_list h ! (P ! k)))))
                   \<longrightarrow> dom_entries ?q' ! k = dom_entries ?q0 ! k)"
  proof (intro allI impI conjI)
    fix k assume k: "k < ?n"
    from id0 k have i0: "domain_id (snd (infos0 ! k))
                      = domain_id (dom_sched_info (domain_list h ! (P ! k)))" by simp
    show "dom_entry_domid (dom_entries ?q' ! k)
            = ucast (domain_id (dom_sched_info (domain_list h ! (P ! k))))"
      unfolding e1 [OF k] using id1 [OF k] i0
      by (simp add: dom_entry_of_def get_domid_from_dom_info_def)
    assume un: "\<forall>e \<in> set es. dom_entry_domid e
                        \<noteq> ucast (domain_id (dom_sched_info (domain_list h ! (P ! k))))"
    have "\<forall>e \<in> set es. sint (dom_entry_domid e) \<noteq> uint (domain_id (snd (infos0 ! k)))"
    proof
      fix e assume "e \<in> set es"
      with un i0 have "dom_entry_domid e \<noteq> ucast (domain_id (snd (infos0 ! k)))" by simp
      then show "sint (dom_entry_domid e) \<noteq> uint (domain_id (snd (infos0 ! k)))"
        using sint_eq_uint_ucast by blast
    qed
    from update_domain_infos_loop_unnamed [OF loop _ this] k l0
    have "infos1 ! k = infos0 ! k" by simp
    with e0 [OF k] e1 [OF k] show "dom_entries ?q' ! k = dom_entries ?q0 ! k" by simp
  qed
  have "num_dom_entries ?q' = of_nat ?n" by simp
  with g0 g1 named rest show ?thesis by blast
qed


text \<open>
  Claim C9, as stated, fails.  The request names one of the two domains of the pool and is
  accepted; the \<^verbatim>\<open>getinfo\<close> that follows returns two entries, the unchanged entry of domain 1
  before the new entry of domain 2, and so a configuration that is not the request.  The
  sort by policy class orders the array of pointers that \<^verbatim>\<open>putinfo\<close> works on, not what
  \<^verbatim>\<open>getinfo\<close> returns.
\<close>

theorem getinfo_returns_every_domain_of_pool:
  "\<not> isl (putinfo 1000 ex_hypervisor 1 ex_put)
   \<and> fst (projr (putinfo 1000 ex_hypervisor 1 ex_put)) = 0
   \<and> take (unat (num_dom_entries ex_put)) (dom_entries ex_put) = [ex_new_entry]
   \<and> getinfo (snd (projr (putinfo 1000 ex_hypervisor 1 ex_put))) 1 ex_get
       = Inr (0, \<lparr>num_dom_entries = 2,
                  dom_entries = [dom_entry_of (ex_dom_info 1 3), ex_new_entry,
                                 ex_no_entry, ex_no_entry]\<rparr>)"
proof -
  let ?R = "putinfo 1000 ex_hypervisor 1 ex_put"
  have 1: "\<not> isl ?R" by code_simp
  have 2: "fst (projr ?R) = 0" by code_simp
  have 3: "take (unat (num_dom_entries ex_put)) (dom_entries ex_put) = [ex_new_entry]"
    by (simp add: ex_put_def)
  have 4: "getinfo (snd (projr ?R)) 1 ex_get
       = Inr (0, \<lparr>num_dom_entries = 2,
                  dom_entries = [dom_entry_of (ex_dom_info 1 3), ex_new_entry,
                                 ex_no_entry, ex_no_entry]\<rparr>)" by code_simp
  from 1 2 3 4 show ?thesis by blast
qed

text \<open>
  The pool of the example: the new entry of domain 2 is returned, and the entry of
  domain 1, which the request does not name, is the one returned before.
\<close>

theorem putinfo_getinfo_round_trip_witness:
  "\<not> isl (putinfo 1000 ex_hypervisor 1 ex_put)
   \<and> fst (projr (putinfo 1000 ex_hypervisor 1 ex_put)) = 0
   \<and> max_domains ex_hypervisor \<le> length (dom_entries ex_get)
   \<and> (\<exists>q0 q'. getinfo ex_hypervisor 1 ex_get = Inr (0, q0)
         \<and> getinfo (snd (projr (putinfo 1000 ex_hypervisor 1 ex_put))) 1 ex_get = Inr (0, q')
         \<and> num_dom_entries q' = 2
         \<and> ex_new_entry \<in> set (take 2 (dom_entries q'))
         \<and> dom_entries q' ! 0 = dom_entries q0 ! 0)"
proof -
  let ?R = "putinfo 1000 ex_hypervisor 1 ex_put"
  have ok: "\<not> isl ?R" by code_simp
  have rc: "fst (projr ?R) = 0" by code_simp
  have len: "max_domains ex_hypervisor \<le> length (dom_entries ex_get)"
    by (simp add: ex_hypervisor_def ex_get_def)
  from ok rc have put: "?R = Inr (0, snd (projr ?R))" by (cases ?R) auto
  have P: "for_each_domain_in_cpupool ex_hypervisor 1 = [1, 2]" by code_simp
  have es: "take (unat (num_dom_entries ex_put)) (dom_entries ex_put) = [ex_new_entry]"
    by (simp add: ex_put_def)
  have ne: "dom_entry_domid ex_new_entry
              \<noteq> ucast (domain_id (dom_sched_info (domain_list ex_hypervisor ! 1)))"
    by (simp add: ex_new_entry_def ex_hypervisor_def ex_dom_info_def)
  from putinfo_getinfo_round_trip [OF put len, unfolded P es] obtain q0 q' where
    g: "getinfo ex_hypervisor 1 ex_get = Inr (0, q0)"
       "getinfo (snd (projr ?R)) 1 ex_get = Inr (0, q')"
    and n: "num_dom_entries q' = of_nat (length [1 :: nat, 2])"
    and named: "\<forall>e \<in> set [ex_new_entry]. e \<in> set (take (length [1 :: nat, 2]) (dom_entries q'))"
    and rest: "\<forall>k<length [1 :: nat, 2].
                dom_entry_domid (dom_entries q' ! k)
                  = ucast (domain_id (dom_sched_info (domain_list ex_hypervisor ! ([1, 2] ! k))))
              \<and> ((\<forall>e \<in> set [ex_new_entry]. dom_entry_domid e
                      \<noteq> ucast (domain_id (dom_sched_info
                                             (domain_list ex_hypervisor ! ([1, 2] ! k)))))
                   \<longrightarrow> dom_entries q' ! k = dom_entries q0 ! k)"
    by blast
  from n have n2: "num_dom_entries q' = 2" by simp
  have "length [1 :: nat, 2] = 2" by simp
  with named have nm: "ex_new_entry \<in> set (take 2 (dom_entries q'))"
    by (simp del: length_Cons list.size)
  from rest [rule_format, of 0] ne have k0: "dom_entries q' ! 0 = dom_entries q0 ! 0" by simp
  from ok rc len g n2 nm k0 show ?thesis by blast
qed


end
